theory Spec2Isabelle
  imports Main "HOL-Library.AList" "HOL-Library.Char_ord" "HOL-Library.List_Lexorder"
    "HOL-Library.Multiset"
begin

section \<open>Conventions of the embedding\<close>

text \<open>
  The two modules verified here are the flashcard module (Leitner scheduler) and the
  progress module (exam progress, streak tracker, import and export).

  \<^item> A calendar date (the ISO string \<^verbatim>\<open>YYYY-MM-DD\<close>) is its day number, an \<open>int\<close>: string
    comparison of two ISO dates is comparison of the day numbers, \<^verbatim>\<open>addDays\<close> is addition,
    and the difference of two midnights divided by 86400000 is the difference of the day
    numbers. This reads the \<^verbatim>\<open>Date\<close> arithmetic of the source on a host whose local
    calendar is the UTC calendar (the source mixes local-time parsing with
    \<^verbatim>\<open>toISOString\<close>, which is UTC).
  \<^item> The clock is a parameter: \<open>today\<close> is what \<^verbatim>\<open>todayISO()\<close> and \<^verbatim>\<open>todayString()\<close>
    return, \<open>now\<close> is \<^verbatim>\<open>new Date().toISOString()\<close>.
  \<^item> A timestamp is a \<open>string\<close>, compared as JavaScript compares strings (by code unit,
    lexicographically).
  \<^item> \<^verbatim>\<open>localStorage\<close> holds the value that was saved: a function takes the persisted
    value and returns the value persisted afterwards. A thrown exception is \<open>Inl\<close>.
\<close>

datatype js_error = TypeError | RangeError | SyntaxError | InvalidFormat

section \<open>Flashcard module: the Leitner scheduler\<close>

record card =
  card_id :: string
  topic :: "string option"
  question :: string
  answer :: string

record card_state =
  box :: int
  nextReview :: int

type_synonym leitner = "string \<rightharpoonup> card_state"



text \<open>\<^verbatim>\<open>getCardState(cardId)\<close> creates the default state of an unseen card in the map and
  returns the state; the map is returned with it.\<close>

definition getCardState :: "int \<Rightarrow> leitner \<Rightarrow> string \<Rightarrow> leitner \<times> card_state" where
  "getCardState today ls cardId =
     (case ls cardId of
        None \<Rightarrow> (ls(cardId \<mapsto> \<lparr>box = 1, nextReview = today\<rparr>), \<lparr>box = 1, nextReview = today\<rparr>)
      | Some st \<Rightarrow> (ls, st))"


definition boxToStars :: "int \<Rightarrow> int" where
  "boxToStars b = b"

text \<open>\<^verbatim>\<open>a.localeCompare(b)\<close> on two ISO dates: negative, zero or positive as the dates
  compare.\<close>

definition localeCompare :: "int \<Rightarrow> int \<Rightarrow> int" where
  "localeCompare a b = (if a < b then - 1 else if a = b then 0 else 1)"

text \<open>The comparator of \<^verbatim>\<open>sortCards\<close>. It calls \<^verbatim>\<open>getCardState\<close> twice, so it threads the
  map.\<close>

definition compareCards :: "int \<Rightarrow> leitner \<Rightarrow> card \<Rightarrow> card \<Rightarrow> leitner \<times> int" where
  "compareCards today ls a b =
     (let (ls1, sa) = getCardState today ls (card_id a);
          (ls2, sb) = getCardState today ls1 (card_id b);
          aDue = (nextReview sa \<le> today);
          bDue = (nextReview sb \<le> today)
      in if aDue \<and> \<not> bDue then (ls2, - 1)
         else if \<not> aDue \<and> bDue then (ls2, 1)
         else if box sa \<noteq> box sb then (ls2, box sa - box sb)
         else (ls2, localeCompare (nextReview sa) (nextReview sb)))"

text \<open>\<^verbatim>\<open>Array.prototype.sort\<close> is the host's: ECMAScript requires it to be stable, and to
  place \<open>a\<close> before \<open>b\<close> when the comparator is negative. It is modelled as the stable
  insertion sort under the comparator: an element is inserted before the first element
  that it does not compare greater than. An array of fewer than two elements causes no
  call of the comparator.\<close>

fun insertCard :: "int \<Rightarrow> card \<Rightarrow> leitner \<times> card list \<Rightarrow> leitner \<times> card list" where
  "insertCard today x (ls, []) = (ls, [x])"
| "insertCard today x (ls, y # ys) =
     (let (ls1, c) = compareCards today ls x y
      in if c \<le> 0 then (ls1, x # y # ys)
         else (let (ls2, r) = insertCard today x (ls1, ys) in (ls2, y # r)))"

definition arraySort :: "int \<Rightarrow> leitner \<Rightarrow> card list \<Rightarrow> leitner \<times> card list" where
  "arraySort today ls xs = foldr (insertCard today) xs (ls, [])"

text \<open>\<^verbatim>\<open>sortCards(cards)\<close> is \<^verbatim>\<open>[...cards].sort(cmp)\<close>. On values the spread is the
  identity.\<close>

definition sortCards :: "int \<Rightarrow> leitner \<Rightarrow> card list \<Rightarrow> leitner \<times> card list" where
  "sortCards today ls cards = arraySort today ls cards"

text \<open>The same function on array references, for what it does to the array it is given.
  The heap is the list of the allocated arrays, an address is an index into it. The spread
  allocates a new array with the elements of the old one (and throws a TypeError when its
  argument is no array); \<^verbatim>\<open>sort\<close> works in place on the new array and returns its
  reference.\<close>

type_synonym heap = "card list list"

definition spread :: "heap \<Rightarrow> nat \<Rightarrow> js_error + (heap \<times> nat)" where
  "spread h a = (if a < length h then Inr (h @ [h ! a], length h) else Inl TypeError)"

definition sortInPlace :: "int \<Rightarrow> leitner \<Rightarrow> heap \<Rightarrow> nat \<Rightarrow> leitner \<times> heap" where
  "sortInPlace today ls h a = (let (ls1, ys) = arraySort today ls (h ! a) in (ls1, h[a := ys]))"

definition sortCardsRef :: "int \<Rightarrow> leitner \<Rightarrow> heap \<Rightarrow> nat \<Rightarrow> js_error + (leitner \<times> heap \<times> nat)" where
  "sortCardsRef today ls h cards =
     (case spread h cards of
        Inl e \<Rightarrow> Inl e
      | Inr (h1, a1) \<Rightarrow> (let (ls1, h2) = sortInPlace today ls h1 a1 in Inr (ls1, h2, a1)))"



section \<open>Progress module: the persisted store\<close>

record quiz =
  qdate :: string
  score :: int
  total :: int
  passed :: bool

record exam_progress =
  topicsStudied :: "string list"
  chaptersCompleted :: "string list"
  quizScores :: "quiz list"
  flashcardsMastered :: int
  lastActivity :: "string option"

record streak_tracker =
  dates :: "int list"
  current :: int
  longest :: int

text \<open>The object \<^verbatim>\<open>data.exams\<close> is the list of its entries in insertion order, with one entry
  for a key.\<close>

record progress =
  exams :: "(string \<times> exam_progress) list"
  streaks :: streak_tracker

definition getDefaultProgress :: progress where
  "getDefaultProgress = \<lparr>exams = [], streaks = \<lparr>dates = [], current = 0, longest = 0\<rparr>\<rparr>"

definition getDefaultExamProgress :: exam_progress where
  "getDefaultExamProgress =
     \<lparr>topicsStudied = [], chaptersCompleted = [], quizScores = [], flashcardsMastered = 0,
      lastActivity = None\<rparr>"

text \<open>\<^verbatim>\<open>ensureExam(data, examId)\<close> returns the exam's object, created when absent. The callers
  mutate that object; \<open>putExam\<close> is the write through the reference.\<close>

definition ensureExam :: "progress \<Rightarrow> string \<Rightarrow> progress \<times> exam_progress" where
  "ensureExam data examId =
     (case map_of (exams data) examId of
        None \<Rightarrow> (data\<lparr>exams := exams data @ [(examId, getDefaultExamProgress)]\<rparr>,
                 getDefaultExamProgress)
      | Some e \<Rightarrow> (data, e))"

definition putExam :: "progress \<Rightarrow> string \<Rightarrow> exam_progress \<Rightarrow> progress" where
  "putExam data examId e = data\<lparr>exams := AList.update examId e (exams data)\<rparr>"

text \<open>A JavaScript \<^verbatim>\<open>Set\<close> is the list of its elements in insertion order: \<^verbatim>\<open>new Set(xs)\<close>
  adds the elements of \<open>xs\<close> one by one, and spreading the set gives the list.\<close>

definition setAdd :: "'a list \<Rightarrow> 'a \<Rightarrow> 'a list" where
  "setAdd s x = (if x \<in> set s then s else s @ [x])"

definition newSet :: "'a list \<Rightarrow> 'a list" where
  "newSet xs = fold (\<lambda>x s. setAdd s x) xs []"

section \<open>Progress module: the streak tracker\<close>

text \<open>The loop of \<^verbatim>\<open>updateStreaks\<close>, with its variables \<^verbatim>\<open>i\<close>, \<^verbatim>\<open>checkDate\<close> and
  \<^verbatim>\<open>current\<close>; a \<^verbatim>\<open>break\<close> returns the count.\<close>

function streakLoop :: "int list \<Rightarrow> int \<Rightarrow> nat \<Rightarrow> int \<Rightarrow> int \<Rightarrow> int" where
  "streakLoop sortedD diffFromToday i checkDate cur =
     (if i < length sortedD then
        (if sortedD ! i = checkDate - int i then
           streakLoop sortedD diffFromToday (i + 1) checkDate (cur + 1)
         else if i = 0 \<and> diffFromToday = 1 then
           (if sortedD ! i = checkDate - 1 then
              streakLoop sortedD diffFromToday (i + 1) (checkDate - 1) (cur + 1)
            else cur)
         else cur)
      else cur)"
  by pat_completeness auto
termination
  by (relation "measure (\<lambda>(sortedD, d, i, c, n). length sortedD - i)") auto

declare streakLoop.simps [simp del]

definition updateStreaks :: "int \<Rightarrow> progress \<Rightarrow> progress" where
  "updateStreaks today data =
     (let st = streaks data
      in if dates st = [] then data\<lparr>streaks := st\<lparr>current := 0\<rparr>\<rparr>
         else
           (let sortedD = rev (sort (newSet (dates st)));
                st1 = st\<lparr>dates := sortedD\<rparr>;
                mostRecent = sortedD ! 0;
                diffFromToday = today - mostRecent
            in if diffFromToday > 1 then data\<lparr>streaks := st1\<lparr>current := 0\<rparr>\<rparr>
               else
                 (let cur = streakLoop sortedD diffFromToday 0 today 0;
                      st2 = st1\<lparr>current := cur\<rparr>
                  in if cur > longest st2 then data\<lparr>streaks := st2\<lparr>longest := cur\<rparr>\<rparr>
                     else data\<lparr>streaks := st2\<rparr>)))"

definition recordActivity :: "int \<Rightarrow> progress \<Rightarrow> progress" where
  "recordActivity today data =
     (let st = streaks data
      in updateStreaks today
           (if today \<in> set (dates st) then data
            else data\<lparr>streaks := st\<lparr>dates := dates st @ [today]\<rparr>\<rparr>))"

section \<open>Progress module: marking and scores\<close>

definition markChapterComplete ::
  "string \<Rightarrow> int \<Rightarrow> string \<Rightarrow> string \<Rightarrow> bool \<Rightarrow> progress \<Rightarrow> progress" where
  "markChapterComplete now today examId chapterId complete data =
     (let (data1, exam) = ensureExam data examId;
          exam1 = (if complete \<and> chapterId \<notin> set (chaptersCompleted exam) then
                     exam\<lparr>chaptersCompleted := chaptersCompleted exam @ [chapterId]\<rparr>
                   else if \<not> complete then
                     exam\<lparr>chaptersCompleted := filter (\<lambda>c. c \<noteq> chapterId) (chaptersCompleted exam)\<rparr>
                   else exam)
      in recordActivity today (putExam data1 examId (exam1\<lparr>lastActivity := Some now\<rparr>)))"

definition markTopicStudied ::
  "string \<Rightarrow> int \<Rightarrow> string \<Rightarrow> string \<Rightarrow> bool \<Rightarrow> progress \<Rightarrow> progress" where
  "markTopicStudied now today examId topicId studied data =
     (let (data1, exam) = ensureExam data examId;
          exam1 = (if studied \<and> topicId \<notin> set (topicsStudied exam) then
                     exam\<lparr>topicsStudied := topicsStudied exam @ [topicId]\<rparr>
                   else if \<not> studied then
                     exam\<lparr>topicsStudied := filter (\<lambda>t. t \<noteq> topicId) (topicsStudied exam)\<rparr>
                   else exam)
      in recordActivity today (putExam data1 examId (exam1\<lparr>lastActivity := Some now\<rparr>)))"

definition saveQuizScore ::
  "string \<Rightarrow> int \<Rightarrow> string \<Rightarrow> int \<Rightarrow> int \<Rightarrow> bool \<Rightarrow> progress \<Rightarrow> progress" where
  "saveQuizScore now today examId sc tot pa data =
     (let (data1, exam) = ensureExam data examId;
          exam1 = exam\<lparr>quizScores := quizScores exam @ [\<lparr>qdate = now, score = sc, total = tot, passed = pa\<rparr>]\<rparr>
      in recordActivity today (putExam data1 examId (exam1\<lparr>lastActivity := Some now\<rparr>)))"

section \<open>Progress module: import and export\<close>

text \<open>What \<^verbatim>\<open>importProgress(json)\<close> can be given, as far as the function looks at it. A string
  is parsed: \<open>BadJSON\<close> is a string that \<^verbatim>\<open>JSON.parse\<close> rejects, \<open>Decoded v\<close> is the parsed value
  or the value passed as it is. \<open>Falsy\<close> is \<^verbatim>\<open>null\<close>, \<^verbatim>\<open>undefined\<close>, \<^verbatim>\<open>0\<close>, \<^verbatim>\<open>""\<close> or
  \<^verbatim>\<open>false\<close>; \<open>Primitive\<close> is any other value whose \<^verbatim>\<open>typeof\<close> is not \<^verbatim>\<open>'object'\<close>; \<open>Object\<close> is
  an object (an array is one, with neither \<^verbatim>\<open>exams\<close> nor \<^verbatim>\<open>streaks\<close>).

  A field is \<open>None\<close> when the test that guards it fails (\<^verbatim>\<open>Array.isArray\<close>, \<^verbatim>\<open>typeof\<close> number,
  truthiness) and \<open>Some\<close> of its content otherwise. An entry of \<^verbatim>\<open>exams\<close> or of \<^verbatim>\<open>quizScores\<close>
  that is \<^verbatim>\<open>null\<close> makes the property access throw a TypeError. A quiz entry without a
  date has the empty (falsy) date.\<close>

datatype quiz_json = QNull | QObj quiz

record exam_json =
  j_topicsStudied :: "string list option"
  j_chaptersCompleted :: "string list option"
  j_quizScores :: "quiz_json list option"
  j_flashcardsMastered :: "int option"
  j_lastActivity :: "string option"

datatype exam_entry = ExamNull | ExamObj exam_json

record streaks_json =
  j_dates :: "int list option"
  j_current :: "int option"
  j_longest :: "int option"

record snapshot =
  j_exams :: "(string \<times> exam_entry) list option"
  j_streaks :: "streaks_json option"

datatype js_value = Falsy | Primitive | Object snapshot

datatype import_arg = BadJSON | Decoded js_value

text \<open>The loop over \<^verbatim>\<open>examData.quizScores\<close>; \<^verbatim>\<open>existingDates\<close> is computed once, before the
  loop.\<close>

fun mergeQuizScores :: "string list \<Rightarrow> quiz_json list \<Rightarrow> quiz list \<Rightarrow> js_error + quiz list" where
  "mergeQuizScores existingDates [] scores = Inr scores"
| "mergeQuizScores existingDates (QNull # qs) scores = Inl TypeError"
| "mergeQuizScores existingDates (QObj q # qs) scores =
     mergeQuizScores existingDates qs
       (if qdate q \<noteq> [] \<and> qdate q \<notin> set existingDates then scores @ [q] else scores)"

text \<open>The body of the loop over the imported exams, for one exam.\<close>

definition mergeExam :: "exam_progress \<Rightarrow> exam_json \<Rightarrow> js_error + exam_progress" where
  "mergeExam existing examData =
     (let e1 = (case j_topicsStudied examData of
                  None \<Rightarrow> existing
                | Some ts \<Rightarrow> existing\<lparr>topicsStudied := newSet (topicsStudied existing @ ts)\<rparr>);
          e2 = (case j_chaptersCompleted examData of
                  None \<Rightarrow> e1
                | Some cs \<Rightarrow> e1\<lparr>chaptersCompleted := newSet (chaptersCompleted e1 @ cs)\<rparr>)
      in case (case j_quizScores examData of
                 None \<Rightarrow> Inr (quizScores e2)
               | Some qs \<Rightarrow> mergeQuizScores (map qdate (quizScores e2)) qs (quizScores e2)) of
           Inl err \<Rightarrow> Inl err
         | Inr scores \<Rightarrow>
             (let e3 = e2\<lparr>quizScores := scores\<rparr>;
                  e4 = (case j_flashcardsMastered examData of
                          None \<Rightarrow> e3
                        | Some n \<Rightarrow> e3\<lparr>flashcardsMastered := max (flashcardsMastered e3) n\<rparr>);
                  e5 = (case j_lastActivity examData of
                          None \<Rightarrow> e4
                        | Some t \<Rightarrow>
                            if t \<noteq> [] \<and>
                               (case lastActivity e4 of None \<Rightarrow> True | Some u \<Rightarrow> u = [] \<or> u < t)
                            then e4\<lparr>lastActivity := Some t\<rparr> else e4)
              in Inr e5))"

fun mergeExams :: "(string \<times> exam_entry) list \<Rightarrow> progress \<Rightarrow> js_error + progress" where
  "mergeExams [] cur = Inr cur"
| "mergeExams ((examId, examData) # rest) cur =
     (let (cur1, existing) = ensureExam cur examId
      in case examData of
           ExamNull \<Rightarrow> Inl TypeError
         | ExamObj d \<Rightarrow>
             (case mergeExam existing d of
                Inl err \<Rightarrow> Inl err
              | Inr e \<Rightarrow> mergeExams rest (putExam cur1 examId e)))"

text \<open>\<^verbatim>\<open>current.streaks.longest || 0\<close> on a number.\<close>

definition orZero :: "int \<Rightarrow> int" where
  "orZero x = (if x = 0 then 0 else x)"

definition mergeStreaks :: "int \<Rightarrow> streaks_json option \<Rightarrow> progress \<Rightarrow> progress" where
  "mergeStreaks today js cur =
     (case js of
        None \<Rightarrow> cur
      | Some sj \<Rightarrow>
          (case j_dates sj of
             None \<Rightarrow> cur
           | Some ds \<Rightarrow>
               (let st = streaks cur;
                    st1 = st\<lparr>dates := newSet (dates st @ ds)\<rparr>;
                    st2 = (case j_longest sj of
                             None \<Rightarrow> st1
                           | Some l \<Rightarrow> st1\<lparr>longest := max (orZero (longest st1)) l\<rparr>)
                in updateStreaks today (cur\<lparr>streaks := st2\<rparr>))))"

text \<open>The \<^verbatim>\<open>try\<close> block of \<^verbatim>\<open>importProgress\<close> up to \<^verbatim>\<open>saveProgress\<close>: the value to save, or the
  exception.\<close>

definition importBody :: "int \<Rightarrow> import_arg \<Rightarrow> progress \<Rightarrow> js_error + progress" where
  "importBody today json stored =
     (case json of
        BadJSON \<Rightarrow> Inl SyntaxError
      | Decoded Falsy \<Rightarrow> Inl InvalidFormat
      | Decoded Primitive \<Rightarrow> Inl InvalidFormat
      | Decoded (Object imported) \<Rightarrow>
          (case (case j_exams imported of None \<Rightarrow> Inr stored | Some es \<Rightarrow> mergeExams es stored) of
             Inl err \<Rightarrow> Inl err
           | Inr cur \<Rightarrow> Inr (mergeStreaks today (j_streaks imported) cur)))"

text \<open>\<^verbatim>\<open>importProgress(json)\<close>: the persisted store afterwards and the result. The \<^verbatim>\<open>catch\<close>
  returns false; nothing was saved.\<close>

definition importProgress :: "int \<Rightarrow> import_arg \<Rightarrow> progress \<Rightarrow> progress \<times> bool" where
  "importProgress today json stored =
     (case importBody today json stored of
        Inl err \<Rightarrow> (stored, False)
      | Inr cur \<Rightarrow> (cur, True))"

text \<open>\<^verbatim>\<open>exportProgress()\<close> is \<^verbatim>\<open>JSON.stringify(loadProgress(), null, 2)\<close>; the text stands for
  the value that \<^verbatim>\<open>JSON.parse\<close> reads back from it.\<close>

definition examToJson :: "exam_progress \<Rightarrow> exam_json" where
  "examToJson e =
     \<lparr>j_topicsStudied = Some (topicsStudied e),
      j_chaptersCompleted = Some (chaptersCompleted e),
      j_quizScores = Some (map QObj (quizScores e)),
      j_flashcardsMastered = Some (flashcardsMastered e),
      j_lastActivity = lastActivity e\<rparr>"

definition exportProgress :: "progress \<Rightarrow> import_arg" where
  "exportProgress stored =
     Decoded (Object
       \<lparr>j_exams = Some (map (\<lambda>(k, e). (k, ExamObj (examToJson e))) (exams stored)),
        j_streaks = Some \<lparr>j_dates = Some (dates (streaks stored)),
                          j_current = Some (current (streaks stored)),
                          j_longest = Some (longest (streaks stored))\<rparr>\<rparr>)"

section \<open>Quiz results\<close>







section \<open>Notions used to state the properties\<close>

text \<open>The state \<^verbatim>\<open>getCardState\<close> returns for a card, whether the card is due, and the composite
  sort key of the specification: due before not due, then the box, then the review date.
  \<open>keyLE\<close> is the order of that key, written out.\<close>

definition stateOf :: "int \<Rightarrow> leitner \<Rightarrow> card \<Rightarrow> card_state" where
  "stateOf today ls c = snd (getCardState today ls (card_id c))"

definition dueOf :: "int \<Rightarrow> leitner \<Rightarrow> card \<Rightarrow> bool" where
  "dueOf today ls c = (nextReview (stateOf today ls c) \<le> today)"

definition sortKey :: "int \<Rightarrow> leitner \<Rightarrow> card \<Rightarrow> bool \<times> int \<times> int" where
  "sortKey today ls c =
     (dueOf today ls c, box (stateOf today ls c), nextReview (stateOf today ls c))"

definition keyLE :: "int \<Rightarrow> leitner \<Rightarrow> card \<Rightarrow> card \<Rightarrow> bool" where
  "keyLE today ls a b =
     ((dueOf today ls a \<and> \<not> dueOf today ls b) \<or>
      (dueOf today ls a = dueOf today ls b \<and>
        (box (stateOf today ls a) < box (stateOf today ls b) \<or>
         (box (stateOf today ls a) = box (stateOf today ls b) \<and>
          nextReview (stateOf today ls a) \<le> nextReview (stateOf today ls b)))))"

text \<open>Stable insertion under an order, without the map: what \<open>insertCard\<close> computes.\<close>

fun insertBy :: "('a \<Rightarrow> 'a \<Rightarrow> bool) \<Rightarrow> 'a \<Rightarrow> 'a list \<Rightarrow> 'a list" where
  "insertBy le x [] = [x]"
| "insertBy le x (y # ys) = (if le x y then x # y # ys else y # insertBy le x ys)"

text \<open>\<open>lazyExt today S ls ls1\<close>: the map \<open>ls1\<close> is \<open>ls\<close>, but for default states created for
  card ids of \<open>S\<close> that had none.\<close>

definition lazyExt :: "int \<Rightarrow> string set \<Rightarrow> leitner \<Rightarrow> leitner \<Rightarrow> bool" where
  "lazyExt today S ls ls1 =
     (\<forall>k. ls1 k = ls k \<or>
          (ls k = None \<and> k \<in> S \<and> ls1 k = Some \<lparr>box = 1, nextReview = today\<rparr>))"

text \<open>Concrete inputs at which the theorems are instantiated.\<close>

definition demoCard :: "string \<Rightarrow> card" where
  "demoCard k = \<lparr>card_id = k, topic = None, question = [], answer = []\<rparr>"


definition demoCards :: "card list" where
  "demoCards = [demoCard ''a'', demoCard ''b'', demoCard ''c'', demoCard ''d'']"

definition demoLeitner :: leitner where
  "demoLeitner =
     Map.empty(''a'' \<mapsto> \<lparr>box = 3, nextReview = 104\<rparr>,
               ''b'' \<mapsto> \<lparr>box = 2, nextReview = 99\<rparr>,
               ''d'' \<mapsto> \<lparr>box = 2, nextReview = 98\<rparr>)"

text \<open>The number of consecutive days \<open>c\<close>, \<open>c - 1\<close>, ... at the head of a list of dates.\<close>

fun countRun :: "int \<Rightarrow> int list \<Rightarrow> int" where
  "countRun c [] = 0"
| "countRun c (y # ys) = (if y = c then 1 + countRun (c - 1) ys else 0)"

text \<open>The sorted dates of \<^verbatim>\<open>updateStreaks\<close>, and the count its loop returns on them.\<close>

definition sortedDates :: "progress \<Rightarrow> int list" where
  "sortedDates data = rev (sort (newSet (dates (streaks data))))"

definition streakCount :: "int \<Rightarrow> int list \<Rightarrow> int" where
  "streakCount today xs =
     (if today - xs ! 0 > 1 then 0
      else if xs ! 0 = today then countRun today xs
      else if xs ! 0 = today - 1 then countRun (today - 1) xs else 0)"

definition demoStore :: "int list \<Rightarrow> progress" where
  "demoStore ds = \<lparr>exams = [], streaks = \<lparr>dates = ds, current = 0, longest = 0\<rparr>\<rparr>"

text \<open>\<^verbatim>\<open>getExamProgress(examId)\<close>: the exam's progress, or the default when the store has
  none.\<close>

definition getExamProgress :: "string \<Rightarrow> progress \<Rightarrow> exam_progress" where
  "getExamProgress examId data =
     (case map_of (exams data) examId of None \<Rightarrow> getDefaultExamProgress | Some e \<Rightarrow> e)"

text \<open>The imported quiz entries that are objects; the entries among them that the loop
  appends (a date that is truthy and not among the existing dates); and whether no entry
  is \<^verbatim>\<open>null\<close>.\<close>

fun quizOf :: "quiz_json \<Rightarrow> quiz option" where
  "quizOf QNull = None"
| "quizOf (QObj q) = Some q"

definition newQuizzes :: "quiz list \<Rightarrow> quiz_json list \<Rightarrow> quiz list" where
  "newQuizzes existing js =
     filter (\<lambda>q. qdate q \<noteq> [] \<and> qdate q \<notin> set (map qdate existing)) (List.map_filter quizOf js)"

definition quizzesOK :: "quiz_json list option \<Rightarrow> bool" where
  "quizzesOK j = (case j of None \<Rightarrow> True | Some js \<Rightarrow> QNull \<notin> set js)"

text \<open>A snapshot on which no property access throws: no exam entry and no quiz entry is
  \<^verbatim>\<open>null\<close>.\<close>

fun entryOK :: "exam_entry \<Rightarrow> bool" where
  "entryOK ExamNull = False"
| "entryOK (ExamObj d) = quizzesOK (j_quizScores d)"

definition snapshotOK :: "snapshot \<Rightarrow> bool" where
  "snapshotOK imp = (case j_exams imp of None \<Rightarrow> True | Some es \<Rightarrow> list_all (\<lambda>kx. entryOK (snd kx)) es)"

text \<open>The fields of an exam after the loop body, when it does not throw.\<close>

definition mergedList :: "string list \<Rightarrow> string list option \<Rightarrow> string list" where
  "mergedList xs j = (case j of None \<Rightarrow> xs | Some ys \<Rightarrow> newSet (xs @ ys))"

definition mergedActivity :: "string option \<Rightarrow> string option \<Rightarrow> string option" where
  "mergedActivity la j =
     (case j of
        None \<Rightarrow> la
      | Some t \<Rightarrow>
          if t \<noteq> [] \<and> (case la of None \<Rightarrow> True | Some u \<Rightarrow> u = [] \<or> u < t) then Some t else la)"

definition mergedExam :: "exam_progress \<Rightarrow> exam_json \<Rightarrow> exam_progress" where
  "mergedExam e d =
     \<lparr>topicsStudied = mergedList (topicsStudied e) (j_topicsStudied d),
      chaptersCompleted = mergedList (chaptersCompleted e) (j_chaptersCompleted d),
      quizScores = (case j_quizScores d of None \<Rightarrow> quizScores e
                    | Some js \<Rightarrow> quizScores e @ newQuizzes (quizScores e) js),
      flashcardsMastered = (case j_flashcardsMastered d of None \<Rightarrow> flashcardsMastered e
                            | Some n \<Rightarrow> max (flashcardsMastered e) n),
      lastActivity = mergedActivity (lastActivity e) (j_lastActivity d)\<rparr>"

text \<open>A stored exam, an imported exam and a snapshot at which the theorems are
  instantiated.\<close>

definition demoExam :: exam_progress where
  "demoExam =
     \<lparr>topicsStudied = [''t1''], chaptersCompleted = [''ch1''],
      quizScores = [\<lparr>qdate = ''2024-01-01T10:00:00.000Z'', score = 18, total = 25, passed = True\<rparr>],
      flashcardsMastered = 4, lastActivity = Some ''2024-01-01T10:00:00.000Z''\<rparr>"

definition demoExamJson :: exam_json where
  "demoExamJson =
     \<lparr>j_topicsStudied = Some [''t2'', ''t1''], j_chaptersCompleted = Some [''ch2''],
      j_quizScores = Some [QObj \<lparr>qdate = ''2024-01-01T10:00:00.000Z'', score = 18, total = 25, passed = True\<rparr>,
                           QObj \<lparr>qdate = ''2024-02-01T10:00:00.000Z'', score = 20, total = 25, passed = True\<rparr>],
      j_flashcardsMastered = Some 7, j_lastActivity = Some ''2024-02-01T10:00:00.000Z''\<rparr>"

definition demoProgress :: progress where
  "demoProgress = \<lparr>exams = [(''sie'', demoExam)], streaks = \<lparr>dates = [95], current = 1, longest = 1\<rparr>\<rparr>"

definition demoSnapshot :: snapshot where
  "demoSnapshot = \<lparr>j_exams = Some [(''sie'', ExamObj demoExamJson)], j_streaks = None\<rparr>"

text \<open>One round of the loop over the imported exams; an entry that the store already
  covers (merging it changes nothing); and a store whose exam keys and whose topic and
  chapter lists have no duplicates.\<close>

definition stepExam :: "progress \<Rightarrow> string \<Rightarrow> exam_json \<Rightarrow> progress" where
  "stepExam cur k d = putExam (fst (ensureExam cur k)) k (mergedExam (getExamProgress k cur) d)"

fun coversEntry :: "progress \<Rightarrow> string \<times> exam_entry \<Rightarrow> bool" where
  "coversEntry s (k, ExamNull) = False"
| "coversEntry s (k, ExamObj d) =
     (quizzesOK (j_quizScores d) \<and>
      (case map_of (exams s) k of None \<Rightarrow> False | Some e \<Rightarrow> mergedExam e d = e))"

definition wfStore :: "progress \<Rightarrow> bool" where
  "wfStore s =
     (distinct (map fst (exams s)) \<and>
      list_all (\<lambda>ke. distinct (topicsStudied (snd ke)) \<and> distinct (chaptersCompleted (snd ke))) (exams s))"

section \<open>Properties of the scheduler\<close>

lemma stateOf_getCardState:
  "stateOf today (fst (getCardState today ls k)) c = stateOf today ls c"
  by (auto simp: stateOf_def getCardState_def split: option.splits)

lemma keyLE_cong:
  "(\<And>c. stateOf today ls1 c = stateOf today ls c) \<Longrightarrow> keyLE today ls1 = keyLE today ls"
  by (intro ext) (simp add: keyLE_def dueOf_def)

lemma compareCards_states:
  "stateOf today (fst (compareCards today ls a b)) c = stateOf today ls c"
  by (auto simp: compareCards_def Let_def stateOf_def getCardState_def split: option.splits prod.splits)

lemma compareCards_sign:
  "(snd (compareCards today ls a b) \<le> 0) = keyLE today ls a b"
  by (auto simp: compareCards_def Let_def stateOf_def getCardState_def keyLE_def dueOf_def localeCompare_def
      split: option.splits prod.splits)

lemma insertCard_pure:
  "snd (insertCard today x (ls, ys)) = insertBy (keyLE today ls) x ys \<and>
   (\<forall>c. stateOf today (fst (insertCard today x (ls, ys))) c = stateOf today ls c)"
proof (induction ys arbitrary: ls)
  case Nil
  show ?case by simp
next
  case (Cons y ys)
  obtain ls1 r where cmp: "compareCards today ls x y = (ls1, r)"
    by (cases "compareCards today ls x y")
  have st1: "\<And>c. stateOf today ls1 c = stateOf today ls c"
    using compareCards_states [of today ls x y] cmp by simp
  have sign: "(r \<le> 0) = keyLE today ls x y"
    using compareCards_sign [of today ls x y] cmp by simp
  have le1: "keyLE today ls1 = keyLE today ls"
    using st1 by (rule keyLE_cong)
  show ?case
  proof (cases "r \<le> 0")
    case True
    then show ?thesis using cmp sign st1 by simp
  next
    case False
    obtain ls2 ys2 where rec: "insertCard today x (ls1, ys) = (ls2, ys2)"
      by (cases "insertCard today x (ls1, ys)")
    from Cons.IH [of ls1] rec le1 st1
    have "ys2 = insertBy (keyLE today ls) x ys" and "\<forall>c. stateOf today ls2 c = stateOf today ls c"
      by simp_all
    then show ?thesis using False cmp sign rec by simp
  qed
qed

lemma arraySort_pure:
  "snd (arraySort today ls xs) = foldr (insertBy (keyLE today ls)) xs [] \<and>
   (\<forall>c. stateOf today (fst (arraySort today ls xs)) c = stateOf today ls c)"
proof (induction xs)
  case Nil
  show ?case by (simp add: arraySort_def)
next
  case (Cons x xs)
  obtain ls1 ys where rec: "arraySort today ls xs = (ls1, ys)"
    by (cases "arraySort today ls xs")
  from Cons rec have ys: "ys = foldr (insertBy (keyLE today ls)) xs []"
    and st1: "\<And>c. stateOf today ls1 c = stateOf today ls c" by simp_all
  have le1: "keyLE today ls1 = keyLE today ls" using st1 by (rule keyLE_cong)
  have step: "arraySort today ls (x # xs) = insertCard today x (ls1, ys)"
    using rec by (simp add: arraySort_def)
  show ?case
    using insertCard_pure [of today x ls1 ys] by (simp add: step le1 st1 ys)
qed

lemma mset_insertBy: "mset (insertBy le x ys) = add_mset x (mset ys)"
  by (induction ys) auto

lemma set_insertBy: "set (insertBy le x ys) = insert x (set ys)"
  by (induction ys) auto

lemma sorted_insertBy:
  assumes tr: "\<And>a b c. le a b \<Longrightarrow> le b c \<Longrightarrow> le a c"
      and tot: "\<And>a b. le a b \<or> le b a"
  shows "sorted_wrt le ys \<Longrightarrow> sorted_wrt le (insertBy le x ys)"
proof (induction ys)
  case Nil
  show ?case by simp
next
  case (Cons y ys)
  show ?case
  proof (cases "le x y")
    case True
    then have "\<forall>z\<in>set ys. le x z" using Cons.prems tr by auto
    then show ?thesis using True Cons.prems by simp
  next
    case False
    then have "le y x" using tot by blast
    then show ?thesis using False Cons by (auto simp: set_insertBy)
  qed
qed

lemma filter_insertBy_other:
  "\<not> P x \<Longrightarrow> filter P (insertBy le x ys) = filter P ys"
  by (induction ys) auto

lemma filter_insertBy_same:
  assumes "P x" and "\<And>y. P y \<Longrightarrow> le x y"
  shows "filter P (insertBy le x ys) = x # filter P ys"
  using assms by (induction ys) auto

lemma keyLE_trans: "keyLE today ls a b \<Longrightarrow> keyLE today ls b c \<Longrightarrow> keyLE today ls a c"
  unfolding keyLE_def by auto

lemma keyLE_total: "keyLE today ls a b \<or> keyLE today ls b a"
  unfolding keyLE_def by auto

lemma keyLE_same: "sortKey today ls a = sortKey today ls b \<Longrightarrow> keyLE today ls a b"
  unfolding keyLE_def sortKey_def by auto

lemma sorted_foldr_insertBy:
  "sorted_wrt (keyLE today ls) (foldr (insertBy (keyLE today ls)) xs [])"
proof (induction xs)
  case Nil
  show ?case by simp
next
  case (Cons x xs)
  have "sorted_wrt (keyLE today ls)
          (insertBy (keyLE today ls) x (foldr (insertBy (keyLE today ls)) xs []))"
  proof (rule sorted_insertBy [OF _ _ Cons])
    show "\<And>a b c. keyLE today ls a b \<Longrightarrow> keyLE today ls b c \<Longrightarrow> keyLE today ls a c"
      by (rule keyLE_trans)
    show "\<And>a b. keyLE today ls a b \<or> keyLE today ls b a"
      by (rule keyLE_total)
  qed
  then show ?case by simp
qed

lemma mset_foldr_insertBy: "mset (foldr (insertBy le) xs []) = mset xs"
  by (induction xs) (auto simp: mset_insertBy)

lemma stable_foldr_insertBy:
  "filter (\<lambda>c. sortKey today ls c = k) (foldr (insertBy (keyLE today ls)) xs []) =
   filter (\<lambda>c. sortKey today ls c = k) xs"
proof (induction xs)
  case Nil
  show ?case by simp
next
  case (Cons x xs)
  show ?case
  proof (cases "sortKey today ls x = k")
    case True
    have "filter (\<lambda>c. sortKey today ls c = k) (insertBy (keyLE today ls) x (foldr (insertBy (keyLE today ls)) xs []))
        = x # filter (\<lambda>c. sortKey today ls c = k) (foldr (insertBy (keyLE today ls)) xs [])"
      by (rule filter_insertBy_same) (use True in \<open>auto intro: keyLE_same\<close>)
    then show ?thesis using True Cons by simp
  next
    case False
    then show ?thesis using Cons by (simp add: filter_insertBy_other)
  qed
qed

lemma lazyExt_refl: "lazyExt today S ls ls"
  by (simp add: lazyExt_def)

lemma lazyExt_trans:
  "lazyExt today S ls ls1 \<Longrightarrow> lazyExt today T ls1 ls2 \<Longrightarrow> S \<subseteq> U \<Longrightarrow> T \<subseteq> U \<Longrightarrow> lazyExt today U ls ls2"
  unfolding lazyExt_def by (metis subsetD)

lemma lazyExt_getCardState: "lazyExt today {k} ls (fst (getCardState today ls k))"
  by (auto simp: lazyExt_def getCardState_def split: option.splits)

lemma lazyExt_compareCards:
  "lazyExt today {card_id a, card_id b} ls (fst (compareCards today ls a b))"
proof -
  obtain ls1 sa where g1: "getCardState today ls (card_id a) = (ls1, sa)"
    by (cases "getCardState today ls (card_id a)")
  obtain ls2 sb where g2: "getCardState today ls1 (card_id b) = (ls2, sb)"
    by (cases "getCardState today ls1 (card_id b)")
  have f: "fst (compareCards today ls a b) = ls2"
    using g1 g2 by (simp add: compareCards_def Let_def)
  have "lazyExt today {card_id a} ls ls1"
    using lazyExt_getCardState [of today "card_id a" ls] g1 by simp
  moreover have "lazyExt today {card_id b} ls1 ls2"
    using lazyExt_getCardState [of today "card_id b" ls1] g2 by simp
  ultimately show ?thesis
    unfolding f by (rule lazyExt_trans) auto
qed

lemma lazyExt_insertCard:
  "lazyExt today (insert (card_id x) (card_id ` set ys)) ls (fst (insertCard today x (ls, ys)))"
proof (induction ys arbitrary: ls)
  case Nil
  show ?case by (simp add: lazyExt_refl)
next
  case (Cons y ys)
  obtain ls1 r where cmp: "compareCards today ls x y = (ls1, r)"
    by (cases "compareCards today ls x y")
  have e1: "lazyExt today {card_id x, card_id y} ls ls1"
    using lazyExt_compareCards [of today x y ls] cmp by simp
  show ?case
  proof (cases "r \<le> 0")
    case True
    then have "fst (insertCard today x (ls, y # ys)) = ls1" using cmp by simp
    with e1 show ?thesis
      by (auto intro: lazyExt_trans [OF _ lazyExt_refl [of today "{}"]])
  next
    case False
    then have "fst (insertCard today x (ls, y # ys)) = fst (insertCard today x (ls1, ys))"
      using cmp by (simp split: prod.splits)
    with e1 Cons.IH [of ls1] show ?thesis
      by (auto intro: lazyExt_trans)
  qed
qed

lemma set_arraySort: "set (snd (arraySort today ls xs)) = set xs"
  using arraySort_pure [of today ls xs] mset_foldr_insertBy [of "keyLE today ls" xs]
  by (metis set_mset_mset)

lemma lazyExt_arraySort:
  "lazyExt today (card_id ` set xs) ls (fst (arraySort today ls xs))"
proof (induction xs)
  case Nil
  show ?case by (simp add: arraySort_def lazyExt_refl)
next
  case (Cons x xs)
  obtain ls1 ys where rec: "arraySort today ls xs = (ls1, ys)"
    by (cases "arraySort today ls xs")
  have ys: "set ys = set xs" using set_arraySort [of today ls xs] rec by simp
  have step: "arraySort today ls (x # xs) = insertCard today x (ls1, ys)"
    using rec by (simp add: arraySort_def)
  have "lazyExt today (card_id ` set xs) ls ls1" using Cons rec by simp
  moreover have "lazyExt today (insert (card_id x) (card_id ` set ys)) ls1 (fst (insertCard today x (ls1, ys)))"
    by (rule lazyExt_insertCard)
  ultimately show ?case
    unfolding step by (rule lazyExt_trans) (auto simp: ys)
qed

subsection \<open>Claim C1: the box transition\<close>



subsection \<open>Claim C2: the order of the study queue\<close>

text \<open>Claim C2. For every list of cards and every map of card states, the result of
  \<^verbatim>\<open>sortCards\<close> is a permutation of the cards in which, for any two positions \<open>i < j\<close>: the
  card at \<open>j\<close> is due only if the card at \<open>i\<close> is (due cards before cards not yet due);
  within the due and within the not due cards the box does not decrease; within an equal
  box the review date does not decrease. The sort is stable: the cards of any one key
  keep the order they had in the input. Sorting creates default states only, so the
  states (and the keys) are the same before and after. The result is a function of the
  list, the map and the day.\<close>

theorem sortCards_composite_order:
  "mset (snd (sortCards today ls cards)) = mset cards \<and>
   (\<forall>c. stateOf today (fst (sortCards today ls cards)) c = stateOf today ls c) \<and>
   (\<forall>i j. i < j \<and> j < length cards \<longrightarrow>
      (let a = snd (sortCards today ls cards) ! i; b = snd (sortCards today ls cards) ! j
       in (dueOf today ls b \<longrightarrow> dueOf today ls a) \<and>
          (dueOf today ls a = dueOf today ls b \<longrightarrow>
             box (stateOf today ls a) \<le> box (stateOf today ls b)) \<and>
          (dueOf today ls a = dueOf today ls b \<and>
           box (stateOf today ls a) = box (stateOf today ls b) \<longrightarrow>
             nextReview (stateOf today ls a) \<le> nextReview (stateOf today ls b)))) \<and>
   (\<forall>k. filter (\<lambda>c. sortKey today ls c = k) (snd (sortCards today ls cards)) =
        filter (\<lambda>c. sortKey today ls c = k) cards)"
proof -
  define out where "out = snd (sortCards today ls cards)"
  have pure: "out = foldr (insertBy (keyLE today ls)) cards []"
    and states: "\<forall>c. stateOf today (fst (sortCards today ls cards)) c = stateOf today ls c"
    using arraySort_pure [of today ls cards] by (simp_all add: out_def sortCards_def)
  have perm: "mset out = mset cards"
    unfolding pure by (rule mset_foldr_insertBy)
  then have len: "length out = length cards"
    by (metis size_mset)
  have srt: "sorted_wrt (keyLE today ls) out"
    unfolding pure by (rule sorted_foldr_insertBy)
  have ord: "\<forall>i j. i < j \<and> j < length cards \<longrightarrow> keyLE today ls (out ! i) (out ! j)"
    using srt len by (simp add: sorted_wrt_iff_nth_less)
  have stable: "\<forall>k. filter (\<lambda>c. sortKey today ls c = k) out =
        filter (\<lambda>c. sortKey today ls c = k) cards"
    unfolding pure by (simp add: stable_foldr_insertBy)
  have unfold: "\<And>a b. keyLE today ls a b \<Longrightarrow>
      (dueOf today ls b \<longrightarrow> dueOf today ls a) \<and>
      (dueOf today ls a = dueOf today ls b \<longrightarrow>
         box (stateOf today ls a) \<le> box (stateOf today ls b)) \<and>
      (dueOf today ls a = dueOf today ls b \<and>
       box (stateOf today ls a) = box (stateOf today ls b) \<longrightarrow>
         nextReview (stateOf today ls a) \<le> nextReview (stateOf today ls b))"
    unfolding keyLE_def by auto
  show ?thesis
    using perm states ord stable unfold unfolding out_def Let_def by blast
qed

text \<open>At four cards on day 100: \<open>a\<close> in box 3 and not due, \<open>b\<close> and \<open>d\<close> in box 2 and due
  since days 99 and 98, \<open>c\<close> unseen (box 1, due).\<close>

lemma demo_sorted:
  "snd (sortCards 100 demoLeitner demoCards) =
     [demoCard ''c'', demoCard ''d'', demoCard ''b'', demoCard ''a'']"
  by (simp add: sortCards_def arraySort_def demoCards_def demoLeitner_def demoCard_def
      compareCards_def getCardState_def localeCompare_def Let_def)

theorem sortCards_composite_order_witness:
  "mset (snd (sortCards 100 demoLeitner demoCards)) = mset demoCards \<and>
   dueOf 100 demoLeitner (snd (sortCards 100 demoLeitner demoCards) ! 0) \<and>
   dueOf 100 demoLeitner (snd (sortCards 100 demoLeitner demoCards) ! 1) \<and>
   dueOf 100 demoLeitner (snd (sortCards 100 demoLeitner demoCards) ! 2) \<and>
   \<not> dueOf 100 demoLeitner (snd (sortCards 100 demoLeitner demoCards) ! 3) \<and>
   box (stateOf 100 demoLeitner (snd (sortCards 100 demoLeitner demoCards) ! 0)) \<le>
     box (stateOf 100 demoLeitner (snd (sortCards 100 demoLeitner demoCards) ! 1)) \<and>
   nextReview (stateOf 100 demoLeitner (snd (sortCards 100 demoLeitner demoCards) ! 1)) \<le>
     nextReview (stateOf 100 demoLeitner (snd (sortCards 100 demoLeitner demoCards) ! 2))"
proof -
  let ?out = "snd (sortCards 100 demoLeitner demoCards)"
  have d2: "dueOf 100 demoLeitner (?out ! 2)"
    unfolding demo_sorted
    by (simp add: dueOf_def stateOf_def getCardState_def demoLeitner_def demoCard_def)
  have d3: "\<not> dueOf 100 demoLeitner (?out ! 3)"
    unfolding demo_sorted
    by (simp add: dueOf_def stateOf_def getCardState_def demoLeitner_def demoCard_def)
  have b12: "box (stateOf 100 demoLeitner (?out ! 1)) = box (stateOf 100 demoLeitner (?out ! 2))"
    unfolding demo_sorted
    by (simp add: stateOf_def getCardState_def demoLeitner_def demoCard_def)
  have len: "length demoCards = 4" by (simp add: demoCards_def)
  note inst = sortCards_composite_order [of 100 demoLeitner demoCards]
  have p: "mset ?out = mset demoCards"
    using inst by blast
  have o: "\<And>i j. i < j \<Longrightarrow> j < 4 \<Longrightarrow>
      (dueOf 100 demoLeitner (?out ! j) \<longrightarrow> dueOf 100 demoLeitner (?out ! i)) \<and>
      (dueOf 100 demoLeitner (?out ! i) = dueOf 100 demoLeitner (?out ! j) \<longrightarrow>
       box (stateOf 100 demoLeitner (?out ! i)) \<le> box (stateOf 100 demoLeitner (?out ! j))) \<and>
      (dueOf 100 demoLeitner (?out ! i) = dueOf 100 demoLeitner (?out ! j) \<and>
       box (stateOf 100 demoLeitner (?out ! i)) = box (stateOf 100 demoLeitner (?out ! j)) \<longrightarrow>
       nextReview (stateOf 100 demoLeitner (?out ! i)) \<le>
       nextReview (stateOf 100 demoLeitner (?out ! j)))"
    using inst unfolding len Let_def by blast
  have d1: "dueOf 100 demoLeitner (?out ! 1)"
    using o [of 1 2] d2 by simp
  have d0: "dueOf 100 demoLeitner (?out ! 0)"
    using o [of 0 1] d1 by simp
  have b01: "box (stateOf 100 demoLeitner (?out ! 0)) \<le> box (stateOf 100 demoLeitner (?out ! 1))"
    using o [of 0 1] d0 d1 by simp
  have n12: "nextReview (stateOf 100 demoLeitner (?out ! 1)) \<le>
      nextReview (stateOf 100 demoLeitner (?out ! 2))"
    using o [of 1 2] d1 d2 b12 by simp
  show ?thesis using p d0 d1 d2 d3 b01 n12 by blast
qed

subsection \<open>Claim C10: sorting leaves its argument alone\<close>

text \<open>Claim C10. Given the reference of an array, \<^verbatim>\<open>sortCards\<close> returns a reference that was not
  allocated before; every array that existed, the argument among them, has the content
  and order it had; the new array is a permutation of the argument; and the map of card
  states is unchanged but for default states created for ids of the cards sorted.\<close>

theorem sortCardsRef_frame:
  assumes ok: "cards < length h"
  shows "\<exists>ls1 h1 r. sortCardsRef today ls h cards = Inr (ls1, h1, r) \<and>
           r = length h \<and> length h1 = length h + 1 \<and>
           (\<forall>a. a < length h \<longrightarrow> h1 ! a = h ! a) \<and>
           h1 ! r = snd (sortCards today ls (h ! cards)) \<and>
           mset (h1 ! r) = mset (h ! cards) \<and>
           lazyExt today (card_id ` set (h ! cards)) ls ls1"
proof -
  obtain ls1 ys where s: "arraySort today ls (h ! cards) = (ls1, ys)"
    by (cases "arraySort today ls (h ! cards)")
  have run: "sortCardsRef today ls h cards = Inr (ls1, (h @ [h ! cards])[length h := ys], length h)"
    using ok s by (simp add: sortCardsRef_def spread_def sortInPlace_def)
  have old: "\<forall>a. a < length h \<longrightarrow> ((h @ [h ! cards])[length h := ys]) ! a = h ! a"
    by (simp add: nth_append)
  have new: "((h @ [h ! cards])[length h := ys]) ! length h = ys"
    by simp
  have val: "ys = snd (sortCards today ls (h ! cards))"
    using s by (simp add: sortCards_def)
  have perm: "mset ys = mset (h ! cards)"
    using arraySort_pure [of today ls "h ! cards"] s
    by (simp add: mset_foldr_insertBy)
  have ext: "lazyExt today (card_id ` set (h ! cards)) ls ls1"
    using lazyExt_arraySort [of today "h ! cards" ls] s by simp
  show ?thesis
    using run old new val perm ext by simp
qed

text \<open>At a heap holding the one array of the four cards.\<close>

theorem sortCardsRef_frame_witness:
  "\<exists>ls1 h1. sortCardsRef 100 demoLeitner [demoCards] 0 = Inr (ls1, h1, 1) \<and>
      length h1 = 2 \<and> h1 ! 0 = demoCards \<and> mset (h1 ! 1) = mset demoCards \<and>
      lazyExt 100 {''a'', ''b'', ''c'', ''d''} demoLeitner ls1"
proof -
  have ok: "0 < length [demoCards]" by simp
  have ids: "card_id ` set demoCards = {''a'', ''b'', ''c'', ''d''}"
    by (simp add: demoCards_def demoCard_def)
  show ?thesis
    using sortCardsRef_frame [OF ok, of 100 demoLeitner] ids by (auto simp: numeral_2_eq_2)
qed

section \<open>Properties of the streak tracker\<close>

lemma fold_setAdd:
  "distinct acc \<Longrightarrow>
     distinct (fold (\<lambda>x s. setAdd s x) xs acc) \<and>
     set (fold (\<lambda>x s. setAdd s x) xs acc) = set acc \<union> set xs"
  by (induction xs arbitrary: acc) (auto simp: setAdd_def)

lemma fold_setAdd_distinct:
  "distinct (acc @ xs) \<Longrightarrow> fold (\<lambda>x s. setAdd s x) xs acc = acc @ xs"
  by (induction xs arbitrary: acc) (auto simp: setAdd_def)

lemma fold_setAdd_absorb:
  "set xs \<subseteq> set acc \<Longrightarrow> fold (\<lambda>x s. setAdd s x) xs acc = acc"
  by (induction xs arbitrary: acc) (auto simp: setAdd_def)

lemma set_newSet: "set (newSet xs) = set xs"
  using fold_setAdd [of "[]" xs] by (simp add: newSet_def)

lemma distinct_newSet: "distinct (newSet xs)"
  using fold_setAdd [of "[]" xs] by (simp add: newSet_def)

lemma newSet_distinct: "distinct xs \<Longrightarrow> newSet xs = xs"
  using fold_setAdd_distinct [of "[]" xs] by (simp add: newSet_def)

lemma newSet_append: "newSet (xs @ ys) = fold (\<lambda>x s. setAdd s x) ys (newSet xs)"
  by (simp add: newSet_def)

lemma newSet_absorb: "distinct xs \<Longrightarrow> set ys \<subseteq> set xs \<Longrightarrow> newSet (xs @ ys) = xs"
  by (simp add: newSet_append newSet_distinct fold_setAdd_absorb)

text \<open>The dates after \<^verbatim>\<open>[...new Set(dates)].sort().reverse()\<close> descend strictly.\<close>

lemma desc_sort_newSet:
  "sorted_wrt (\<lambda>a b. b < a) (rev (sort (newSet ds))) \<and> set (rev (sort (newSet ds))) = set ds"
  by (simp add: sorted_wrt_rev strict_sorted_iff distinct_newSet set_newSet)

lemma desc_unique:
  assumes "sorted_wrt (\<lambda>a b. b < a) (xs :: int list)" and "sorted_wrt (\<lambda>a b. b < a) ys"
    and "set xs = set ys"
  shows "xs = ys"
proof -
  have "sorted (rev xs) \<and> distinct (rev xs)" and "sorted (rev ys) \<and> distinct (rev ys)"
    using assms(1,2) strict_sorted_iff [of "rev xs"] strict_sorted_iff [of "rev ys"]
    by (simp_all add: sorted_wrt_rev)
  then have "rev xs = rev ys"
    using assms(3) by (intro sorted_distinct_set_unique) simp_all
  then show ?thesis by simp
qed

lemma desc_fixed:
  "sorted_wrt (\<lambda>a b. b < a) (xs :: int list) \<Longrightarrow> rev (sort (newSet xs)) = xs"
  using desc_sort_newSet [of xs] by (blast intro: desc_unique)


lemma desc_hd_ge:
  "sorted_wrt (\<lambda>a b. b < a) (xs :: int list) \<Longrightarrow> x \<in> set xs \<Longrightarrow> x \<le> xs ! 0"
  by (cases xs) auto

text \<open>The loop counts a run of consecutive days.\<close>

lemma streakLoop_run:
  "0 < i \<Longrightarrow> streakLoop xs d i c cur = cur + countRun (c - int i) (drop i xs)"
proof (induction xs d i c cur rule: streakLoop.induct)
  case (1 xs d i c cur)
  show ?case
  proof (cases "i < length xs")
    case False
    then show ?thesis by (simp add: streakLoop.simps [of xs d i c cur])
  next
    case True
    then have dr: "drop i xs = xs ! i # drop (Suc i) xs"
      by (simp add: Cons_nth_drop_Suc)
    show ?thesis
    proof (cases "xs ! i = c - int i")
      case eq: True
      have "streakLoop xs d i c cur = streakLoop xs d (i + 1) c (cur + 1)"
        using True eq by (simp add: streakLoop.simps [of xs d i c cur])
      also have "\<dots> = cur + 1 + countRun (c - int (i + 1)) (drop (i + 1) xs)"
        using "1.IH"(1) [OF True eq] by simp
      finally show ?thesis using eq dr by (simp add: algebra_simps)
    next
      case ne: False
      then show ?thesis
        using True dr "1.prems" by (simp add: streakLoop.simps [of xs d i c cur])
    qed
  qed
qed

lemma streakLoop_start:
  "xs \<noteq> [] \<Longrightarrow>
   streakLoop xs d 0 c 0 =
     (if xs ! 0 = c then countRun c xs
      else if d = 1 \<and> xs ! 0 = c - 1 then countRun (c - 1) xs else 0)"
  by (cases xs) (auto simp: streakLoop.simps [of _ d 0 c 0] streakLoop_run)



lemma sortedDates_desc:
  "sorted_wrt (\<lambda>a b. b < a) (sortedDates data) \<and> set (sortedDates data) = set (dates (streaks data))"
  unfolding sortedDates_def by (rule desc_sort_newSet)

lemma sortedDates_Nil: "(sortedDates data = []) = (dates (streaks data) = [])"
  using sortedDates_desc [of data] by (metis set_empty)

lemma updateStreaks_empty:
  "dates (streaks data) = [] \<Longrightarrow>
   updateStreaks today data = data\<lparr>streaks := (streaks data)\<lparr>current := 0\<rparr>\<rparr>"
  by (simp add: updateStreaks_def)

lemma updateStreaks_fields:
  assumes ne: "dates (streaks data) \<noteq> []"
  shows "updateStreaks today data =
     data\<lparr>streaks :=
       \<lparr>dates = sortedDates data,
        current = streakCount today (sortedDates data),
        longest = (if today - sortedDates data ! 0 > 1 then longest (streaks data)
                   else max (longest (streaks data)) (streakCount today (sortedDates data)))\<rparr>\<rparr>"
proof -
  have sne: "sortedDates data \<noteq> []" using ne by (simp add: sortedDates_Nil)
  have loop: "streakLoop (sortedDates data) (today - sortedDates data ! 0) 0 today 0 =
      (if sortedDates data ! 0 = today then countRun today (sortedDates data)
       else if sortedDates data ! 0 = today - 1 then countRun (today - 1) (sortedDates data) else 0)"
    using streakLoop_start [OF sne, of "today - sortedDates data ! 0" today] by auto
  show ?thesis
    using ne loop
    by (simp add: updateStreaks_def Let_def streakCount_def sortedDates_def [symmetric] max_def)
qed

lemma sortedDates_fixed:
  "sorted_wrt (\<lambda>a b. b < a) (dates (streaks data)) \<Longrightarrow> sortedDates data = dates (streaks data)"
  unfolding sortedDates_def by (rule desc_fixed)

lemma updateStreaks_idem:
  "updateStreaks today (updateStreaks today data) = updateStreaks today data"
proof (cases "dates (streaks data) = []")
  case True
  then show ?thesis by (simp add: updateStreaks_empty)
next
  case False
  define d1 where "d1 = updateStreaks today data"
  have f1: "d1 = data\<lparr>streaks :=
       \<lparr>dates = sortedDates data,
        current = streakCount today (sortedDates data),
        longest = (if today - sortedDates data ! 0 > 1 then longest (streaks data)
                   else max (longest (streaks data)) (streakCount today (sortedDates data)))\<rparr>\<rparr>"
    unfolding d1_def by (rule updateStreaks_fields [OF False])
  have ds1: "dates (streaks d1) = sortedDates data" by (simp add: f1)
  have ne1: "dates (streaks d1) \<noteq> []" using False by (simp add: ds1 sortedDates_Nil)
  have sd1: "sortedDates d1 = sortedDates data"
    using sortedDates_fixed [of d1] sortedDates_desc [of data] by (simp add: ds1)
  have "updateStreaks today d1 = d1"
    unfolding updateStreaks_fields [OF ne1] sd1 by (simp add: f1)
  then show ?thesis by (simp add: d1_def)
qed

lemma recordActivity_fields:
  "\<exists>ds. ds \<noteq> [] \<and> today \<in> set ds \<and> set ds = insert today (set (dates (streaks data))) \<and>
     recordActivity today data =
       updateStreaks today (data\<lparr>streaks := (streaks data)\<lparr>dates := ds\<rparr>\<rparr>)"
proof (cases "today \<in> set (dates (streaks data))")
  case True
  then have "dates (streaks data) \<noteq> []" by auto
  with True show ?thesis
    by (intro exI [of _ "dates (streaks data)"]) (auto simp: recordActivity_def Let_def)
next
  case False
  then show ?thesis
    by (intro exI [of _ "dates (streaks data) @ [today]"]) (auto simp: recordActivity_def Let_def)
qed

lemma updateStreaks_has_today:
  assumes "today \<in> set (dates (streaks data))"
  shows "updateStreaks today data =
     data\<lparr>streaks :=
       \<lparr>dates = sortedDates data,
        current = streakCount today (sortedDates data),
        longest = max (longest (streaks data)) (streakCount today (sortedDates data))\<rparr>\<rparr>"
proof -
  have ne: "dates (streaks data) \<noteq> []" using assms by auto
  have "today \<le> sortedDates data ! 0"
    using sortedDates_desc [of data] assms by (intro desc_hd_ge) auto
  then show ?thesis unfolding updateStreaks_fields [OF ne] by simp
qed

subsection \<open>Claim C3: streak continuity\<close>



subsection \<open>Claim C4: recording activity twice on a day\<close>

text \<open>Claim C4. For every store, \<^verbatim>\<open>recordActivity\<close> called twice on the same day gives the store
  that one call gives: the same dates, current and longest streak (and the same exams).\<close>

theorem recordActivity_idempotent:
  "recordActivity today (recordActivity today data) = recordActivity today data"
proof -
  obtain ds where ds: "today \<in> set ds"
    and run: "recordActivity today data =
       updateStreaks today (data\<lparr>streaks := (streaks data)\<lparr>dates := ds\<rparr>\<rparr>)"
    using recordActivity_fields [of today data] by blast
  define d0 where "d0 = data\<lparr>streaks := (streaks data)\<lparr>dates := ds\<rparr>\<rparr>"
  have "today \<in> set (dates (streaks d0))" using ds by (simp add: d0_def)
  then have "today \<in> set (dates (streaks (updateStreaks today d0)))"
    using sortedDates_desc [of d0] by (simp add: updateStreaks_has_today)
  then have "recordActivity today (updateStreaks today d0) =
      updateStreaks today (updateStreaks today d0)"
    by (simp add: recordActivity_def)
  then show ?thesis
    using run by (simp add: d0_def updateStreaks_idem)
qed

text \<open>On day 100 with the dates 98 and 99 stored: the streak is 3 after one call and after
  two.\<close>

theorem recordActivity_idempotent_witness:
  "recordActivity 100 (recordActivity 100 (demoStore [98, 99])) =
     \<lparr>exams = [], streaks = \<lparr>dates = [100, 99, 98], current = 3, longest = 3\<rparr>\<rparr> \<and>
   recordActivity 100 (demoStore [98, 99]) =
     \<lparr>exams = [], streaks = \<lparr>dates = [100, 99, 98], current = 3, longest = 3\<rparr>\<rparr>"
proof -
  have "recordActivity 100 (demoStore [98, 99]) =
     \<lparr>exams = [], streaks = \<lparr>dates = [100, 99, 98], current = 3, longest = 3\<rparr>\<rparr>"
    by (simp add: recordActivity_def demoStore_def updateStreaks_has_today sortedDates_def
        newSet_def setAdd_def streakCount_def)
  then show ?thesis
    using recordActivity_idempotent [of 100 "demoStore [98, 99]"] by simp
qed

section \<open>Properties of import and export\<close>

lemma mergeQuizScores_eq:
  "mergeQuizScores ed js acc =
     (if QNull \<in> set js then Inl TypeError
      else Inr (acc @ filter (\<lambda>q. qdate q \<noteq> [] \<and> qdate q \<notin> set ed) (List.map_filter quizOf js)))"
proof (induction ed js acc rule: mergeQuizScores.induct)
  case (1 ed acc)
  show ?case by simp
next
  case (2 ed qs acc)
  show ?case by simp
next
  case (3 ed q qs acc)
  then show ?case by simp
qed

lemma mergeExam_eq:
  "mergeExam e d = (if quizzesOK (j_quizScores d) then Inr (mergedExam e d) else Inl TypeError)"
proof (cases "j_quizScores d")
  case None
  then show ?thesis
    by (simp add: mergeExam_def mergedExam_def mergedList_def mergedActivity_def quizzesOK_def Let_def
        split: option.splits)
next
  case (Some js)
  then show ?thesis
    by (simp add: mergeExam_def mergedExam_def mergedList_def mergedActivity_def quizzesOK_def Let_def
        mergeQuizScores_eq newQuizzes_def split: option.splits)
qed

lemma getExamProgress_ensureExam: "snd (ensureExam data examId) = getExamProgress examId data"
  by (simp add: ensureExam_def getExamProgress_def split: option.splits)

lemma mergeExams_Cons:
  "mergeExams ((k, x) # rest) cur =
     (case x of
        ExamNull \<Rightarrow> Inl TypeError
      | ExamObj d \<Rightarrow>
          if quizzesOK (j_quizScores d)
          then mergeExams rest (putExam (fst (ensureExam cur k)) k (mergedExam (getExamProgress k cur) d))
          else Inl TypeError)"
  by (simp add: mergeExam_eq getExamProgress_ensureExam [symmetric] split: prod.splits exam_entry.splits)

lemma map_of_step:
  "map_of (exams (putExam (fst (ensureExam cur k)) k e)) = (map_of (exams cur))(k \<mapsto> e)"
  by (auto simp: putExam_def ensureExam_def update_conv' map_add_def fun_eq_iff split: option.splits)

lemma getExamProgress_step:
  "getExamProgress j (putExam (fst (ensureExam cur k)) k e) =
     (if j = k then e else getExamProgress j cur)"
  by (simp add: getExamProgress_def map_of_step)

lemma streaks_step: "streaks (putExam (fst (ensureExam cur k)) k e) = streaks cur"
  by (simp add: putExam_def ensureExam_def split: option.splits)

lemma mergeExams_streaks: "mergeExams es cur = Inr r \<Longrightarrow> streaks r = streaks cur"
proof (induction es arbitrary: cur)
  case Nil
  then show ?case by simp
next
  case (Cons kx es)
  obtain k x where kx: "kx = (k, x)" by (cases kx)
  show ?case
    using Cons.prems Cons.IH unfolding kx mergeExams_Cons
    by (auto split: exam_entry.splits if_splits simp: streaks_step)
qed

lemma mergeExams_ok:
  "(\<exists>r. mergeExams es cur = Inr r) = list_all (\<lambda>kx. entryOK (snd kx)) es"
proof (induction es arbitrary: cur)
  case Nil
  show ?case by simp
next
  case (Cons kx es)
  obtain k x where kx: "kx = (k, x)" by (cases kx)
  show ?case
    unfolding kx mergeExams_Cons using Cons.IH
    by (cases x) auto
qed

lemma mergeExams_other:
  "mergeExams es cur = Inr r \<Longrightarrow> j \<notin> fst ` set es \<Longrightarrow>
     map_of (exams r) j = map_of (exams cur) j"
proof (induction es arbitrary: cur)
  case Nil
  then show ?case by simp
next
  case (Cons kx es)
  obtain k x where kx: "kx = (k, x)" by (cases kx)
  have jk: "j \<noteq> k" and jes: "j \<notin> fst ` set es" using Cons.prems(2) kx by auto
  show ?case
    using Cons.prems(1) Cons.IH [OF _ jes] jk unfolding kx mergeExams_Cons
    by (auto split: exam_entry.splits if_splits simp: map_of_step)
qed

lemma mergeExams_entry:
  "mergeExams es cur = Inr r \<Longrightarrow> distinct (map fst es) \<Longrightarrow> (j, ExamObj d) \<in> set es \<Longrightarrow>
     map_of (exams r) j = Some (mergedExam (getExamProgress j cur) d)"
proof (induction es arbitrary: cur)
  case Nil
  then show ?case by simp
next
  case (Cons kx es)
  obtain k x where kx: "kx = (k, x)" by (cases kx)
  have dist: "distinct (map fst es)" and kes: "k \<notin> fst ` set es"
    using Cons.prems(2) kx by auto
  obtain d1 where x: "x = ExamObj d1" and ok: "quizzesOK (j_quizScores d1)"
    and rest: "mergeExams es (putExam (fst (ensureExam cur k)) k (mergedExam (getExamProgress k cur) d1)) = Inr r"
    using Cons.prems(1) unfolding kx mergeExams_Cons
    by (auto split: exam_entry.splits if_splits)
  show ?case
  proof (cases "j = k")
    case True
    then have "d1 = d" using Cons.prems(3) kes kx x by force
    then show ?thesis
      using mergeExams_other [OF rest kes] True by (simp add: map_of_step)
  next
    case False
    then have "(j, ExamObj d) \<in> set es" using Cons.prems(3) kx by auto
    from Cons.IH [OF rest dist this] False show ?thesis
      by (simp add: getExamProgress_step)
  qed
qed

lemma exams_updateStreaks: "exams (updateStreaks today data) = exams data"
  by (simp add: updateStreaks_def Let_def)

lemma exams_mergeStreaks: "exams (mergeStreaks today js cur) = exams cur"
  by (simp add: mergeStreaks_def Let_def exams_updateStreaks split: option.splits)

lemma importBody_Object:
  "importBody today (Decoded (Object imp)) stored =
     (case j_exams imp of
        None \<Rightarrow> Inr (mergeStreaks today (j_streaks imp) stored)
      | Some es \<Rightarrow>
          (case mergeExams es stored of
             Inl err \<Rightarrow> Inl err
           | Inr cur \<Rightarrow> Inr (mergeStreaks today (j_streaks imp) cur)))"
  by (simp add: importBody_def split: option.splits sum.splits)

lemma importBody_ok:
  "(\<exists>r. importBody today json stored = Inr r) = (\<exists>imp. json = Decoded (Object imp) \<and> snapshotOK imp)"
proof (cases json)
  case BadJSON
  then show ?thesis by (simp add: importBody_def)
next
  case (Decoded v)
  show ?thesis
  proof (cases v)
    case Falsy
    then show ?thesis using Decoded by (simp add: importBody_def)
  next
    case Primitive
    then show ?thesis using Decoded by (simp add: importBody_def)
  next
    case (Object imp)
    show ?thesis
    proof (cases "j_exams imp")
      case None
      then show ?thesis using Decoded Object by (simp add: importBody_Object snapshotOK_def)
    next
      case (Some es)
      have "(\<exists>r. importBody today json stored = Inr r) = (\<exists>cur. mergeExams es stored = Inr cur)"
        using Decoded Object Some by (auto simp: importBody_Object split: sum.splits)
      then show ?thesis
        using Decoded Object Some by (simp add: mergeExams_ok snapshotOK_def)
    qed
  qed
qed

subsection \<open>Claim C5: the merge of one exam\<close>

text \<open>Claim C5. When \<^verbatim>\<open>importProgress\<close> succeeds, then for every exam id of the snapshot the
  stored exam afterwards is the merge of what was stored (the default when nothing was)
  with the imported entry: the topics and the chapters are duplicate-free and their sets
  are the unions; the quiz scores are the existing ones, in their order, followed by the
  imported entries that have a date that no existing score has; the mastered count is the
  maximum; the last activity is the greater string. A field that the snapshot does not
  give (or gives with the wrong type) is unchanged.\<close>

theorem importProgress_merge:
  assumes run: "importProgress today (Decoded (Object imp)) stored = (r, True)"
      and es: "j_exams imp = Some es" and dist: "distinct (map fst es)"
      and entry: "(examId, ExamObj d) \<in> set es"
  shows "\<exists>e. map_of (exams r) examId = Some e \<and>
     (case j_topicsStudied d of
        None \<Rightarrow> topicsStudied e = topicsStudied (getExamProgress examId stored)
      | Some ts \<Rightarrow> distinct (topicsStudied e) \<and>
          set (topicsStudied e) = set (topicsStudied (getExamProgress examId stored)) \<union> set ts) \<and>
     (case j_chaptersCompleted d of
        None \<Rightarrow> chaptersCompleted e = chaptersCompleted (getExamProgress examId stored)
      | Some cs \<Rightarrow> distinct (chaptersCompleted e) \<and>
          set (chaptersCompleted e) = set (chaptersCompleted (getExamProgress examId stored)) \<union> set cs) \<and>
     (case j_quizScores d of
        None \<Rightarrow> quizScores e = quizScores (getExamProgress examId stored)
      | Some js \<Rightarrow> quizScores e = quizScores (getExamProgress examId stored) @
          filter (\<lambda>q. qdate q \<noteq> [] \<and> qdate q \<notin> qdate ` set (quizScores (getExamProgress examId stored)))
            (List.map_filter quizOf js)) \<and>
     (case j_flashcardsMastered d of
        None \<Rightarrow> flashcardsMastered e = flashcardsMastered (getExamProgress examId stored)
      | Some n \<Rightarrow> flashcardsMastered e = max (flashcardsMastered (getExamProgress examId stored)) n) \<and>
     (case j_lastActivity d of
        None \<Rightarrow> lastActivity e = lastActivity (getExamProgress examId stored)
      | Some t \<Rightarrow> lastActivity e =
          (if t = [] then lastActivity (getExamProgress examId stored)
           else case lastActivity (getExamProgress examId stored) of
                  None \<Rightarrow> Some t | Some u \<Rightarrow> Some (max u t)))"
proof -
  define old where "old = getExamProgress examId stored"
  obtain cur where cur: "mergeExams es stored = Inr cur"
    and r: "r = mergeStreaks today (j_streaks imp) cur"
    using run es by (auto simp: importProgress_def importBody_Object split: sum.splits)
  have ex: "map_of (exams r) examId = Some (mergedExam old d)"
    using mergeExams_entry [OF cur dist entry] by (simp add: r exams_mergeStreaks old_def)
  have t: "case j_topicsStudied d of
        None \<Rightarrow> topicsStudied (mergedExam old d) = topicsStudied old
      | Some ts \<Rightarrow> distinct (topicsStudied (mergedExam old d)) \<and>
          set (topicsStudied (mergedExam old d)) = set (topicsStudied old) \<union> set ts"
    by (simp add: mergedExam_def mergedList_def distinct_newSet set_newSet split: option.splits)
  have c: "case j_chaptersCompleted d of
        None \<Rightarrow> chaptersCompleted (mergedExam old d) = chaptersCompleted old
      | Some cs \<Rightarrow> distinct (chaptersCompleted (mergedExam old d)) \<and>
          set (chaptersCompleted (mergedExam old d)) = set (chaptersCompleted old) \<union> set cs"
    by (simp add: mergedExam_def mergedList_def distinct_newSet set_newSet split: option.splits)
  have q: "case j_quizScores d of
        None \<Rightarrow> quizScores (mergedExam old d) = quizScores old
      | Some js \<Rightarrow> quizScores (mergedExam old d) = quizScores old @
          filter (\<lambda>q. qdate q \<noteq> [] \<and> qdate q \<notin> qdate ` set (quizScores old)) (List.map_filter quizOf js)"
    by (simp add: mergedExam_def newQuizzes_def split: option.splits)
  have f: "case j_flashcardsMastered d of
        None \<Rightarrow> flashcardsMastered (mergedExam old d) = flashcardsMastered old
      | Some n \<Rightarrow> flashcardsMastered (mergedExam old d) = max (flashcardsMastered old) n"
    by (simp add: mergedExam_def split: option.splits)
  have l: "case j_lastActivity d of
        None \<Rightarrow> lastActivity (mergedExam old d) = lastActivity old
      | Some t \<Rightarrow> lastActivity (mergedExam old d) =
          (if t = [] then lastActivity old
           else case lastActivity old of None \<Rightarrow> Some t | Some u \<Rightarrow> Some (max u t))"
    by (auto simp: mergedExam_def mergedActivity_def max_def split: option.splits)
  show ?thesis
    unfolding old_def [symmetric] using ex t c q f l by blast
qed

lemma demo_ts: "max ''2024-01-01T10:00:00.000Z'' ''2024-02-01T10:00:00.000Z'' = ''2024-02-01T10:00:00.000Z''"
  by (simp add: max_def)

text \<open>At the stored exam \<open>sie\<close> and a snapshot that adds a topic, a chapter and one new quiz
  score.\<close>

theorem importProgress_merge_witness:
  "\<exists>r e. importProgress 100 (Decoded (Object demoSnapshot)) demoProgress = (r, True) \<and>
     map_of (exams r) ''sie'' = Some e \<and>
     distinct (topicsStudied e) \<and> set (topicsStudied e) = {''t1'', ''t2''} \<and>
     distinct (chaptersCompleted e) \<and> set (chaptersCompleted e) = {''ch1'', ''ch2''} \<and>
     quizScores e =
       [\<lparr>qdate = ''2024-01-01T10:00:00.000Z'', score = 18, total = 25, passed = True\<rparr>,
        \<lparr>qdate = ''2024-02-01T10:00:00.000Z'', score = 20, total = 25, passed = True\<rparr>] \<and>
     flashcardsMastered e = 7 \<and>
     lastActivity e = Some ''2024-02-01T10:00:00.000Z''"
proof -
  have "snapshotOK demoSnapshot"
    by (simp add: snapshotOK_def demoSnapshot_def demoExamJson_def quizzesOK_def)
  then obtain r where "importBody 100 (Decoded (Object demoSnapshot)) demoProgress = Inr r"
    using importBody_ok [of 100 "Decoded (Object demoSnapshot)" demoProgress] by auto
  then have run: "importProgress 100 (Decoded (Object demoSnapshot)) demoProgress = (r, True)"
    by (simp add: importProgress_def)
  have es: "j_exams demoSnapshot = Some [(''sie'', ExamObj demoExamJson)]"
    by (simp add: demoSnapshot_def)
  have dist: "distinct (map fst [(''sie'', ExamObj demoExamJson)])" by simp
  have entry: "(''sie'', ExamObj demoExamJson) \<in> set [(''sie'', ExamObj demoExamJson)]" by simp
  have old: "getExamProgress ''sie'' demoProgress = demoExam"
    by (simp add: getExamProgress_def demoProgress_def)
  obtain e where e: "map_of (exams r) ''sie'' = Some e"
    and t: "distinct (topicsStudied e) \<and> set (topicsStudied e) = set (topicsStudied demoExam) \<union> set [''t2'', ''t1'']"
    and c: "distinct (chaptersCompleted e) \<and> set (chaptersCompleted e) = set (chaptersCompleted demoExam) \<union> set [''ch2'']"
    and q: "quizScores e = quizScores demoExam @
          filter (\<lambda>q. qdate q \<noteq> [] \<and> qdate q \<notin> qdate ` set (quizScores demoExam))
            (List.map_filter quizOf
              [QObj \<lparr>qdate = ''2024-01-01T10:00:00.000Z'', score = 18, total = 25, passed = True\<rparr>,
               QObj \<lparr>qdate = ''2024-02-01T10:00:00.000Z'', score = 20, total = 25, passed = True\<rparr>])"
    and f: "flashcardsMastered e = max (flashcardsMastered demoExam) 7"
    and l: "lastActivity e = (case lastActivity demoExam of
                  None \<Rightarrow> Some ''2024-02-01T10:00:00.000Z''
                | Some u \<Rightarrow> Some (max u ''2024-02-01T10:00:00.000Z''))"
    using importProgress_merge [OF run es dist entry] unfolding old
    by (auto simp: demoExamJson_def)
  have t': "set (topicsStudied e) = {''t1'', ''t2''}" using t by (auto simp: demoExam_def)
  have c': "set (chaptersCompleted e) = {''ch1'', ''ch2''}" using c by (auto simp: demoExam_def)
  have q': "quizScores e =
       [\<lparr>qdate = ''2024-01-01T10:00:00.000Z'', score = 18, total = 25, passed = True\<rparr>,
        \<lparr>qdate = ''2024-02-01T10:00:00.000Z'', score = 20, total = 25, passed = True\<rparr>]"
    using q by (simp add: demoExam_def)
  have f': "flashcardsMastered e = 7" using f by (simp add: demoExam_def)
  have l': "lastActivity e = Some ''2024-02-01T10:00:00.000Z''"
    using l by (simp add: demoExam_def demo_ts)
  show ?thesis using run e t c t' c' q' f' l' by blast
qed

subsection \<open>Claim C7: a failed import changes nothing\<close>



subsection \<open>Merging again changes nothing\<close>

text \<open>Merging is idempotent and absorbed by later merges, field by field.\<close>

lemma mergedList_absorbed:
  assumes ab: "mergedList xs j = xs"
  shows "mergedList (mergedList xs j2) j = mergedList xs j2"
proof (cases j)
  case None
  then show ?thesis by (simp add: mergedList_def)
next
  case (Some ys)
  have fx: "newSet (xs @ ys) = xs" using ab Some by (simp add: mergedList_def)
  have dx: "distinct xs" using distinct_newSet [of "xs @ ys"] fx by simp
  have sub: "set ys \<subseteq> set xs" using set_newSet [of "xs @ ys"] fx by auto
  show ?thesis
  proof (cases j2)
    case None
    then show ?thesis using ab by (simp add: mergedList_def)
  next
    case zs: (Some zs)
    have "newSet (newSet (xs @ zs) @ ys) = newSet (xs @ zs)"
      using sub by (intro newSet_absorb) (auto simp: distinct_newSet set_newSet)
    then show ?thesis using Some zs by (simp add: mergedList_def)
  qed
qed

lemma mergedList_idem: "mergedList (mergedList xs j) j = mergedList xs j"
proof (cases j)
  case None
  then show ?thesis by (simp add: mergedList_def)
next
  case (Some ys)
  have "newSet (newSet (xs @ ys) @ ys) = newSet (xs @ ys)"
    by (intro newSet_absorb) (auto simp: distinct_newSet set_newSet)
  then show ?thesis using Some by (simp add: mergedList_def)
qed

lemma mergedList_self: "distinct xs \<Longrightarrow> mergedList xs (Some xs) = xs"
  by (simp add: mergedList_def newSet_absorb)

lemma newQuizzes_mono:
  "newQuizzes qs js = [] \<Longrightarrow> newQuizzes (qs @ extra) js = []"
  unfolding newQuizzes_def filter_empty_conv by auto

lemma newQuizzes_idem: "newQuizzes (qs @ newQuizzes qs js) js = []"
  unfolding newQuizzes_def filter_empty_conv by auto

lemma newQuizzes_self: "newQuizzes qs (map QObj qs) = []"
proof -
  have "List.map_filter quizOf (map QObj qs) = qs"
    by (induction qs) simp_all
  then show ?thesis
    unfolding newQuizzes_def filter_empty_conv by auto
qed

lemma mergedActivity_absorbed:
  "mergedActivity la j = la \<Longrightarrow> mergedActivity (mergedActivity la j2) j = mergedActivity la j2"
  by (auto simp: mergedActivity_def split: option.splits if_splits)

lemma mergedActivity_idem: "mergedActivity (mergedActivity la j) j = mergedActivity la j"
  by (auto simp: mergedActivity_def split: option.splits if_splits)

lemma mergedActivity_self: "mergedActivity la la = la"
  by (auto simp: mergedActivity_def split: option.splits)

lemma mergedExam_idem: "mergedExam (mergedExam e d) d = mergedExam e d"
  by (simp add: mergedExam_def mergedList_idem mergedActivity_idem newQuizzes_idem
      split: option.splits)

lemma exam_fields:
  "(mergedExam e d = e) =
     (mergedList (topicsStudied e) (j_topicsStudied d) = topicsStudied e \<and>
      mergedList (chaptersCompleted e) (j_chaptersCompleted d) = chaptersCompleted e \<and>
      (case j_quizScores d of None \<Rightarrow> True | Some js \<Rightarrow> newQuizzes (quizScores e) js = []) \<and>
      (case j_flashcardsMastered d of None \<Rightarrow> True | Some n \<Rightarrow> n \<le> flashcardsMastered e) \<and>
      mergedActivity (lastActivity e) (j_lastActivity d) = lastActivity e)"
proof -
  have "(mergedExam e d = e) =
     (topicsStudied (mergedExam e d) = topicsStudied e \<and>
      chaptersCompleted (mergedExam e d) = chaptersCompleted e \<and>
      quizScores (mergedExam e d) = quizScores e \<and>
      flashcardsMastered (mergedExam e d) = flashcardsMastered e \<and>
      lastActivity (mergedExam e d) = lastActivity e)"
    by (cases e) (auto simp: mergedExam_def)
  then show ?thesis
    by (auto simp: mergedExam_def split: option.splits)
qed

lemma mergedExam_absorbed:
  assumes "mergedExam e d = e"
  shows "mergedExam (mergedExam e d2) d = mergedExam e d2"
proof -
  have a: "mergedList (topicsStudied e) (j_topicsStudied d) = topicsStudied e"
    and b: "mergedList (chaptersCompleted e) (j_chaptersCompleted d) = chaptersCompleted e"
    and c: "case j_quizScores d of None \<Rightarrow> True | Some js \<Rightarrow> newQuizzes (quizScores e) js = []"
    and f: "case j_flashcardsMastered d of None \<Rightarrow> True | Some n \<Rightarrow> n \<le> flashcardsMastered e"
    and l: "mergedActivity (lastActivity e) (j_lastActivity d) = lastActivity e"
    using assms unfolding exam_fields by simp_all
  have c2: "case j_quizScores d of None \<Rightarrow> True
      | Some js \<Rightarrow> newQuizzes (quizScores (mergedExam e d2)) js = []"
    using c by (auto simp: mergedExam_def newQuizzes_mono split: option.splits)
  have f2: "case j_flashcardsMastered d of None \<Rightarrow> True
      | Some n \<Rightarrow> n \<le> flashcardsMastered (mergedExam e d2)"
    using f by (auto simp: mergedExam_def split: option.splits)
  show ?thesis
    unfolding exam_fields [of "mergedExam e d2" d]
    using c2 f2 mergedList_absorbed [OF a] mergedList_absorbed [OF b] mergedActivity_absorbed [OF l]
    by (simp add: mergedExam_def)
qed

lemma mergedExam_self:
  "distinct (topicsStudied e) \<Longrightarrow> distinct (chaptersCompleted e) \<Longrightarrow> mergedExam e (examToJson e) = e"
  unfolding exam_fields
  by (simp add: examToJson_def mergedList_self newQuizzes_self mergedActivity_self)

lemma mergeExams_step:
  "mergeExams ((k, x) # rest) cur =
     (case x of
        ExamNull \<Rightarrow> Inl TypeError
      | ExamObj d \<Rightarrow>
          if quizzesOK (j_quizScores d) then mergeExams rest (stepExam cur k d) else Inl TypeError)"
  unfolding stepExam_def by (rule mergeExams_Cons)

lemma map_of_stepExam:
  "map_of (exams (stepExam cur k d)) = (map_of (exams cur))(k \<mapsto> mergedExam (getExamProgress k cur) d)"
  unfolding stepExam_def by (rule map_of_step)

lemma stepExam_fixed:
  assumes "coversEntry s (k, ExamObj d)"
  shows "stepExam s k d = s"
proof -
  obtain e where e: "map_of (exams s) k = Some e" and m: "mergedExam e d = e"
    using assms by (auto split: option.splits)
  have "AList.update k e (exams s) = exams s"
    using e by (rule update_triv)
  then show ?thesis
    using e m by (simp add: stepExam_def ensureExam_def getExamProgress_def putExam_def)
qed

lemma stepExam_covers_self:
  "quizzesOK (j_quizScores d) \<Longrightarrow> coversEntry (stepExam s k d) (k, ExamObj d)"
  by (simp add: map_of_stepExam mergedExam_idem)

lemma stepExam_preserves:
  assumes "coversEntry s kx"
  shows "coversEntry (stepExam s k2 d2) kx"
proof -
  obtain k d e where kx: "kx = (k, ExamObj d)" and ok: "quizzesOK (j_quizScores d)"
    and e: "map_of (exams s) k = Some e" and m: "mergedExam e d = e"
    using assms by (cases kx; cases "snd kx") (auto split: option.splits)
  show ?thesis
  proof (cases "k = k2")
    case True
    have "getExamProgress k2 s = e" using e True by (simp add: getExamProgress_def)
    then show ?thesis
      using ok True mergedExam_absorbed [OF m, of d2] by (simp add: kx map_of_stepExam)
  next
    case False
    then show ?thesis using ok e m by (simp add: kx map_of_stepExam)
  qed
qed

lemma mergeExams_preserves:
  "mergeExams es s = Inr r \<Longrightarrow> coversEntry s kx \<Longrightarrow> coversEntry r kx"
proof (induction es arbitrary: s)
  case Nil
  then show ?case by simp
next
  case (Cons ky es)
  obtain k y where ky: "ky = (k, y)" by (cases ky)
  obtain d where rest: "mergeExams es (stepExam s k d) = Inr r"
    using Cons.prems(1) unfolding ky mergeExams_step
    by (auto split: exam_entry.splits if_splits)
  show ?case
    using Cons.IH [OF rest] stepExam_preserves [OF Cons.prems(2)] by simp
qed

lemma mergeExams_covers:
  "mergeExams es s = Inr r \<Longrightarrow> kx \<in> set es \<Longrightarrow> coversEntry r kx"
proof (induction es arbitrary: s)
  case Nil
  then show ?case by simp
next
  case (Cons ky es)
  obtain k y where ky: "ky = (k, y)" by (cases ky)
  obtain d where y: "y = ExamObj d" and ok: "quizzesOK (j_quizScores d)"
    and rest: "mergeExams es (stepExam s k d) = Inr r"
    using Cons.prems(1) unfolding ky mergeExams_step
    by (auto split: exam_entry.splits if_splits)
  show ?case
  proof (cases "kx = ky")
    case True
    then show ?thesis
      using mergeExams_preserves [OF rest stepExam_covers_self [OF ok]] ky y by simp
  next
    case False
    then have "kx \<in> set es" using Cons.prems(2) by simp
    then show ?thesis using Cons.IH [OF rest] by simp
  qed
qed

lemma mergeExams_fixed:
  "(\<And>kx. kx \<in> set es \<Longrightarrow> coversEntry r kx) \<Longrightarrow> mergeExams es r = Inr r"
proof (induction es)
  case Nil
  show ?case by simp
next
  case (Cons ky es)
  obtain k y where ky: "ky = (k, y)" by (cases ky)
  have c: "coversEntry r (k, y)" using Cons.prems ky by simp
  then obtain d where y: "y = ExamObj d" and ok: "quizzesOK (j_quizScores d)"
    by (cases y) auto
  have "stepExam r k d = r" using c y by (intro stepExam_fixed) simp
  then show ?case
    using Cons.IH Cons.prems ok unfolding ky y mergeExams_step by simp
qed

lemma coversEntry_cong: "exams a = exams b \<Longrightarrow> coversEntry a kx = coversEntry b kx"
  by (cases kx; cases "snd kx") auto

text \<open>The streak part of the import.\<close>

lemma updateStreaks_cong:
  assumes ex: "exams a = exams b" and lo: "longest (streaks a) = longest (streaks b)"
    and ds: "set (dates (streaks a)) = set (dates (streaks b))"
  shows "updateStreaks today a = updateStreaks today b"
proof (cases "dates (streaks a) = []")
  case True
  then have "dates (streaks b) = []" using ds by simp
  then show ?thesis
    using True ex lo
    by (cases a; cases b; cases "streaks a"; cases "streaks b") (simp add: updateStreaks_empty)
next
  case False
  then have nb: "dates (streaks b) \<noteq> []" using ds by auto
  have "sortedDates a = sortedDates b"
    using sortedDates_desc [of a] sortedDates_desc [of b] ds by (intro desc_unique) simp_all
  then show ?thesis
    unfolding updateStreaks_fields [OF False] updateStreaks_fields [OF nb]
    using ex lo by (cases a; cases b) simp
qed

lemma mergeStreaks_idem:
  "mergeStreaks today js (mergeStreaks today js cur) = mergeStreaks today js cur"
proof (cases js)
  case None
  then show ?thesis by (simp add: mergeStreaks_def)
next
  case (Some sj)
  show ?thesis
  proof (cases "j_dates sj")
    case None
    then show ?thesis using Some by (simp add: mergeStreaks_def)
  next
    case ds: (Some ds)
    define L where "L = (case j_longest sj of None \<Rightarrow> longest (streaks cur)
                          | Some l \<Rightarrow> max (longest (streaks cur)) l)"
    define c0 where "c0 = cur\<lparr>streaks := \<lparr>dates = newSet (dates (streaks cur) @ ds),
                                          current = current (streaks cur), longest = L\<rparr>\<rparr>"
    define r where "r = updateStreaks today c0"
    have first: "mergeStreaks today js cur = r"
      using Some ds unfolding r_def c0_def L_def
      by (cases cur; cases "streaks cur")
         (simp add: mergeStreaks_def Let_def orZero_def split: option.splits)
    define L1 where "L1 = (case j_longest sj of None \<Rightarrow> longest (streaks r)
                          | Some l \<Rightarrow> max (longest (streaks r)) l)"
    define c1 where "c1 = r\<lparr>streaks := \<lparr>dates = newSet (dates (streaks r) @ ds),
                                          current = current (streaks r), longest = L1\<rparr>\<rparr>"
    have second: "mergeStreaks today js r = updateStreaks today c1"
      using Some ds unfolding c1_def L1_def
      by (cases r; cases "streaks r")
         (simp add: mergeStreaks_def Let_def orZero_def split: option.splits)
    have Lr: "L \<le> longest (streaks r)"
    proof (cases "dates (streaks c0) = []")
      case True
      then show ?thesis by (simp add: r_def updateStreaks_empty c0_def)
    next
      case False
      show ?thesis unfolding r_def updateStreaks_fields [OF False] by (simp add: c0_def)
    qed
    have L1r: "L1 = longest (streaks r)"
      using Lr unfolding L1_def L_def by (auto split: option.splits)
    have dr: "distinct (dates (streaks r)) \<and> set (dates (streaks r)) = set (dates (streaks cur)) \<union> set ds"
    proof (cases "dates (streaks c0) = []")
      case True
      then show ?thesis
        using set_newSet [of "dates (streaks cur) @ ds"]
        by (simp add: r_def updateStreaks_empty c0_def)
    next
      case False
      have "distinct (sortedDates c0)"
        using sortedDates_desc [of c0] strict_sorted_iff [of "rev (sortedDates c0)"]
        by (simp add: sorted_wrt_rev)
      then show ?thesis
        unfolding r_def updateStreaks_fields [OF False]
        using sortedDates_desc [of c0] by (simp add: c0_def set_newSet)
    qed
    have "newSet (dates (streaks r) @ ds) = dates (streaks r)"
      using dr by (intro newSet_absorb) auto
    then have "c1 = r"
      unfolding c1_def L1r by (cases r; cases "streaks r") simp
    then show ?thesis
      unfolding first second by (simp add: r_def updateStreaks_idem)
  qed
qed

lemma export_covers:
  assumes wf: "wfStore s" and kx: "kx \<in> set (map (\<lambda>(k, e). (k, ExamObj (examToJson e))) (exams s))"
  shows "coversEntry s kx"
proof -
  obtain k e where ke: "(k, e) \<in> set (exams s)" and kx': "kx = (k, ExamObj (examToJson e))"
    using kx by auto
  have mp: "map_of (exams s) k = Some e"
    using wf ke by (simp add: wfStore_def)
  have "distinct (topicsStudied e) \<and> distinct (chaptersCompleted e)"
    using wf ke by (auto simp: wfStore_def list_all_iff)
  then have m: "mergedExam e (examToJson e) = e"
    by (simp add: mergedExam_self)
  have q: "quizzesOK (j_quizScores (examToJson e))"
    by (auto simp: examToJson_def quizzesOK_def)
  show ?thesis
    by (simp add: kx' mp m q)
qed

lemma import_export:
  assumes wf: "wfStore s"
  shows "importProgress today (exportProgress s) s = (updateStreaks today s, True)"
proof -
  have ex: "mergeExams (map (\<lambda>(k, e). (k, ExamObj (examToJson e))) (exams s)) s = Inr s"
    by (rule mergeExams_fixed) (rule export_covers [OF wf])
  define c0 where "c0 = s\<lparr>streaks := \<lparr>dates = newSet (dates (streaks s) @ dates (streaks s)),
      current = current (streaks s), longest = longest (streaks s)\<rparr>\<rparr>"
  have st: "mergeStreaks today
      (Some \<lparr>j_dates = Some (dates (streaks s)), j_current = Some (current (streaks s)),
             j_longest = Some (longest (streaks s))\<rparr>) s = updateStreaks today c0"
    unfolding c0_def
    by (cases s; cases "streaks s") (simp add: mergeStreaks_def Let_def orZero_def)
  have "updateStreaks today c0 = updateStreaks today s"
    by (rule updateStreaks_cong) (simp_all add: c0_def set_newSet)
  then show ?thesis
    using ex st by (simp add: importProgress_def exportProgress_def importBody_Object)
qed

lemma import_twice:
  "importProgress today json (fst (importProgress today json s)) = importProgress today json s"
proof (cases "importBody today json s")
  case (Inl err)
  then show ?thesis by (simp add: importProgress_def)
next
  case (Inr r)
  then obtain imp where json: "json = Decoded (Object imp)"
    using importBody_ok [of today json s] by auto
  have "importBody today json r = Inr r"
  proof (cases "j_exams imp")
    case None
    then have "r = mergeStreaks today (j_streaks imp) s"
      using Inr json by (simp add: importBody_Object)
    then show ?thesis
      using None json by (simp add: importBody_Object mergeStreaks_idem)
  next
    case (Some es)
    then obtain cur where cur: "mergeExams es s = Inr cur"
      and r: "r = mergeStreaks today (j_streaks imp) cur"
      using Inr json by (auto simp: importBody_Object split: sum.splits)
    have "\<And>kx. kx \<in> set es \<Longrightarrow> coversEntry r kx"
      using mergeExams_covers [OF cur] coversEntry_cong [of r cur]
      by (simp add: r exams_mergeStreaks)
    then have "mergeExams es r = Inr r" by (rule mergeExams_fixed)
    then show ?thesis
      using Some json by (simp add: importBody_Object r mergeStreaks_idem)
  qed
  then show ?thesis using Inr by (simp add: importProgress_def)
qed

lemma recordActivity_updated:
  "updateStreaks today (recordActivity today s) = recordActivity today s"
  using recordActivity_fields [of today s] by (auto simp: updateStreaks_idem)

lemma exams_recordActivity: "exams (recordActivity today s) = exams s"
  by (simp add: recordActivity_def Let_def exams_updateStreaks)

subsection \<open>Claim C6: importing an export, importing twice\<close>

text \<open>Claim C6, as amended. For a store without duplicates in its topic and chapter lists,
  importing its own export succeeds and changes nothing but the streak tracker, which is
  recomputed for today; so the store is a fixed point when its tracker is up to date, as
  it is after \<^verbatim>\<open>recordActivity\<close> on the same day. And importing any snapshot a second time
  gives the store and the result of importing it once.\<close>

theorem importProgress_idempotent:
  "(wfStore stored \<longrightarrow>
      importProgress today (exportProgress stored) stored = (updateStreaks today stored, True)) \<and>
   (wfStore stored \<longrightarrow>
      importProgress today (exportProgress (recordActivity today stored)) (recordActivity today stored) =
        (recordActivity today stored, True)) \<and>
   importProgress today json (fst (importProgress today json stored)) =
     importProgress today json stored"
proof (intro conjI impI)
  assume "wfStore stored"
  then show "importProgress today (exportProgress stored) stored = (updateStreaks today stored, True)"
    by (rule import_export)
next
  assume "wfStore stored"
  then have "wfStore (recordActivity today stored)"
    by (simp add: wfStore_def exams_recordActivity)
  then show "importProgress today (exportProgress (recordActivity today stored)) (recordActivity today stored) =
        (recordActivity today stored, True)"
    by (simp add: import_export recordActivity_updated)
next
  show "importProgress today json (fst (importProgress today json stored)) =
     importProgress today json stored"
    by (rule import_twice)
qed

text \<open>The claim as stated fails: the store written by \<^verbatim>\<open>recordActivity\<close> on day 95 has the
  current streak 1; importing its export on day 100 recomputes the streak to 0.\<close>

lemma demo_day95:
  "recordActivity 95 getDefaultProgress =
     \<lparr>exams = [], streaks = \<lparr>dates = [95], current = 1, longest = 1\<rparr>\<rparr>"
  by (simp add: recordActivity_def getDefaultProgress_def updateStreaks_has_today sortedDates_def
      newSet_def setAdd_def streakCount_def)

lemma demo_day100:
  "updateStreaks 100 \<lparr>exams = [], streaks = \<lparr>dates = [95], current = 1, longest = 1\<rparr>\<rparr> =
     \<lparr>exams = [], streaks = \<lparr>dates = [95], current = 0, longest = 1\<rparr>\<rparr>"
  by (simp add: updateStreaks_fields sortedDates_def newSet_def setAdd_def streakCount_def)

theorem importProgress_fixed_point_counterexample:
  "fst (importProgress 100 (exportProgress (recordActivity 95 getDefaultProgress))
          (recordActivity 95 getDefaultProgress)) \<noteq> recordActivity 95 getDefaultProgress"
proof -
  have "wfStore \<lparr>exams = [], streaks = \<lparr>dates = [95], current = 1, longest = 1\<rparr>\<rparr>"
    by (simp add: wfStore_def)
  then show ?thesis
    unfolding demo_day95 by (simp add: import_export demo_day100)
qed

text \<open>At the store with the exam \<open>sie\<close> and the date 95, on day 100.\<close>

theorem importProgress_idempotent_witness:
  "importProgress 100 (exportProgress demoProgress) demoProgress =
     (demoProgress\<lparr>streaks := \<lparr>dates = [95], current = 0, longest = 1\<rparr>\<rparr>, True) \<and>
   importProgress 100 (exportProgress (recordActivity 100 demoProgress)) (recordActivity 100 demoProgress) =
     (recordActivity 100 demoProgress, True) \<and>
   importProgress 100 (Decoded (Object demoSnapshot))
     (fst (importProgress 100 (Decoded (Object demoSnapshot)) demoProgress)) =
   importProgress 100 (Decoded (Object demoSnapshot)) demoProgress"
proof -
  have wf: "wfStore demoProgress"
    by (simp add: wfStore_def demoProgress_def demoExam_def)
  have up: "updateStreaks 100 demoProgress =
      demoProgress\<lparr>streaks := \<lparr>dates = [95], current = 0, longest = 1\<rparr>\<rparr>"
    by (simp add: demoProgress_def updateStreaks_fields sortedDates_def newSet_def setAdd_def
        streakCount_def)
  show ?thesis
    using importProgress_idempotent [of demoProgress 100 "Decoded (Object demoSnapshot)"] wf up
    by simp
qed

subsection \<open>Claim C9: the invariant of the streak tracker\<close>

lemma sortedDates_distinct: "distinct (sortedDates data)"
  using sortedDates_desc [of data] strict_sorted_iff [of "rev (sortedDates data)"]
  by (simp add: sorted_wrt_rev)

lemma updateStreaks_inv:
  "(0 \<le> longest (streaks data) \<longrightarrow>
      current (streaks (updateStreaks today data)) \<le> longest (streaks (updateStreaks today data))) \<and>
   distinct (dates (streaks (updateStreaks today data)))"
proof (cases "dates (streaks data) = []")
  case True
  then show ?thesis by (simp add: updateStreaks_empty)
next
  case False
  have "today - sortedDates data ! 0 > 1 \<Longrightarrow> streakCount today (sortedDates data) = 0"
    by (simp add: streakCount_def)
  then show ?thesis
    unfolding updateStreaks_fields [OF False] by (auto simp: sortedDates_distinct)
qed

lemma recordActivity_inv:
  "current (streaks (recordActivity today data)) \<le> longest (streaks (recordActivity today data)) \<and>
   distinct (dates (streaks (recordActivity today data)))"
proof -
  obtain ds where ds: "today \<in> set ds"
    and run: "recordActivity today data =
       updateStreaks today (data\<lparr>streaks := (streaks data)\<lparr>dates := ds\<rparr>\<rparr>)"
    using recordActivity_fields [of today data] by blast
  have "today \<in> set (dates (streaks (data\<lparr>streaks := (streaks data)\<lparr>dates := ds\<rparr>\<rparr>)))"
    using ds by simp
  then show ?thesis
    unfolding run by (simp add: updateStreaks_has_today sortedDates_distinct)
qed

lemma mergeStreaks_inv:
  assumes "0 \<le> longest (streaks cur)" and "j_dates sj = Some ds"
  shows "current (streaks (mergeStreaks today (Some sj) cur)) \<le>
           longest (streaks (mergeStreaks today (Some sj) cur)) \<and>
         distinct (dates (streaks (mergeStreaks today (Some sj) cur)))"
proof -
  define L where "L = (case j_longest sj of None \<Rightarrow> longest (streaks cur)
                        | Some l \<Rightarrow> max (longest (streaks cur)) l)"
  define c0 where "c0 = cur\<lparr>streaks := \<lparr>dates = newSet (dates (streaks cur) @ ds),
                                        current = current (streaks cur), longest = L\<rparr>\<rparr>"
  have run: "mergeStreaks today (Some sj) cur = updateStreaks today c0"
    using assms(2) unfolding c0_def L_def
    by (cases cur; cases "streaks cur")
       (simp add: mergeStreaks_def Let_def orZero_def split: option.splits)
  have "0 \<le> longest (streaks c0)"
    using assms(1) by (auto simp: c0_def L_def split: option.splits)
  then show ?thesis
    unfolding run using updateStreaks_inv [of c0 today] by simp
qed

text \<open>Claim C9. After the recomputation the dates have no duplicates and, when the longest
  streak stored was not negative, the longest streak is at least the current one. After
  \<^verbatim>\<open>recordActivity\<close>, \<^verbatim>\<open>markTopicStudied\<close>, \<^verbatim>\<open>markChapterComplete\<close> and \<^verbatim>\<open>saveQuizScore\<close> both
  hold for every store; after an import that gives streak dates (the one that recomputes)
  both hold when the longest streak stored was not negative.\<close>

theorem streak_invariant:
  "(0 \<le> longest (streaks data) \<longrightarrow>
      current (streaks (updateStreaks today data)) \<le> longest (streaks (updateStreaks today data))) \<and>
   distinct (dates (streaks (updateStreaks today data))) \<and>
   current (streaks (recordActivity today data)) \<le> longest (streaks (recordActivity today data)) \<and>
   distinct (dates (streaks (recordActivity today data))) \<and>
   current (streaks (markTopicStudied now today examId itemId flag data)) \<le>
     longest (streaks (markTopicStudied now today examId itemId flag data)) \<and>
   distinct (dates (streaks (markTopicStudied now today examId itemId flag data))) \<and>
   current (streaks (markChapterComplete now today examId itemId flag data)) \<le>
     longest (streaks (markChapterComplete now today examId itemId flag data)) \<and>
   distinct (dates (streaks (markChapterComplete now today examId itemId flag data))) \<and>
   current (streaks (saveQuizScore now today examId sc tot pa data)) \<le>
     longest (streaks (saveQuizScore now today examId sc tot pa data)) \<and>
   distinct (dates (streaks (saveQuizScore now today examId sc tot pa data))) \<and>
   (0 \<le> longest (streaks data) \<and> j_streaks imp = Some sj \<and> j_dates sj = Some ds \<and>
    snd (importProgress today (Decoded (Object imp)) data) \<longrightarrow>
      current (streaks (fst (importProgress today (Decoded (Object imp)) data))) \<le>
        longest (streaks (fst (importProgress today (Decoded (Object imp)) data))) \<and>
      distinct (dates (streaks (fst (importProgress today (Decoded (Object imp)) data)))))"
proof -
  have tp: "\<exists>x. markTopicStudied now today examId itemId flag data = recordActivity today x"
    unfolding markTopicStudied_def Let_def by (cases "ensureExam data examId") (simp, blast)
  have ch: "\<exists>x. markChapterComplete now today examId itemId flag data = recordActivity today x"
    unfolding markChapterComplete_def Let_def by (cases "ensureExam data examId") (simp, blast)
  have qz: "\<exists>x. saveQuizScore now today examId sc tot pa data = recordActivity today x"
    unfolding saveQuizScore_def Let_def by (cases "ensureExam data examId") (simp, blast)
  have im: "0 \<le> longest (streaks data) \<and> j_streaks imp = Some sj \<and> j_dates sj = Some ds \<and>
    snd (importProgress today (Decoded (Object imp)) data) \<longrightarrow>
      current (streaks (fst (importProgress today (Decoded (Object imp)) data))) \<le>
        longest (streaks (fst (importProgress today (Decoded (Object imp)) data))) \<and>
      distinct (dates (streaks (fst (importProgress today (Decoded (Object imp)) data))))"
  proof
    assume h: "0 \<le> longest (streaks data) \<and> j_streaks imp = Some sj \<and> j_dates sj = Some ds \<and>
      snd (importProgress today (Decoded (Object imp)) data)"
    then obtain cur where r: "fst (importProgress today (Decoded (Object imp)) data) =
        mergeStreaks today (Some sj) cur" and st: "streaks cur = streaks data"
      by (cases "j_exams imp")
         (auto simp: importProgress_def importBody_Object mergeExams_streaks split: sum.splits)
    show "current (streaks (fst (importProgress today (Decoded (Object imp)) data))) \<le>
        longest (streaks (fst (importProgress today (Decoded (Object imp)) data))) \<and>
      distinct (dates (streaks (fst (importProgress today (Decoded (Object imp)) data))))"
      unfolding r using h st by (intro mergeStreaks_inv) simp_all
  qed
  show ?thesis
    using updateStreaks_inv [of data today] recordActivity_inv tp ch qz im
    by metis
qed

text \<open>At the store with the date 95, on day 100.\<close>

theorem streak_invariant_witness:
  "current (streaks (updateStreaks 100 demoProgress)) \<le> longest (streaks (updateStreaks 100 demoProgress)) \<and>
   distinct (dates (streaks (recordActivity 100 demoProgress))) \<and>
   current (streaks (fst (importProgress 100 (exportProgress demoProgress) demoProgress))) \<le>
     longest (streaks (fst (importProgress 100 (exportProgress demoProgress) demoProgress)))"
proof -
  have l: "0 \<le> longest (streaks demoProgress)" by (simp add: demoProgress_def)
  define imp where "imp = \<lparr>j_exams = Some (map (\<lambda>(k, e). (k, ExamObj (examToJson e))) (exams demoProgress)),
        j_streaks = Some \<lparr>j_dates = Some (dates (streaks demoProgress)),
                          j_current = Some (current (streaks demoProgress)),
                          j_longest = Some (longest (streaks demoProgress))\<rparr>\<rparr>"
  have ex: "exportProgress demoProgress = Decoded (Object imp)"
    by (simp add: exportProgress_def imp_def)
  have js: "j_streaks imp = Some \<lparr>j_dates = Some (dates (streaks demoProgress)),
                          j_current = Some (current (streaks demoProgress)),
                          j_longest = Some (longest (streaks demoProgress))\<rparr>"
    by (simp add: imp_def)
  have "wfStore demoProgress" by (simp add: wfStore_def demoProgress_def demoExam_def)
  then have ok: "snd (importProgress 100 (Decoded (Object imp)) demoProgress)"
    unfolding ex [symmetric] by (simp add: import_export)
  show ?thesis
    using streak_invariant [of demoProgress 100 _ _ _ _ _ _ _ imp
        "\<lparr>j_dates = Some (dates (streaks demoProgress)),
          j_current = Some (current (streaks demoProgress)),
          j_longest = Some (longest (streaks demoProgress))\<rparr>" "dates (streaks demoProgress)"]
      l js ok unfolding ex by simp
qed

section \<open>Properties of the quiz results\<close>


subsection \<open>Claim C8: the passed flag of a saved score\<close>




end
